theory Spec2Isabelle
  imports Main "HOL-Library.Word"
begin

unbundle bit_operations_syntax

section \<open>Data model (esp32\_sing.h)\<close>

text \<open>
  The player runs on the 32-bit ESP32, so \<^verbatim>\<open>size_t\<close> and \<^verbatim>\<open>uint32_t\<close> are 32-bit words
  and \<^verbatim>\<open>int\<close> is their two's complement reading. Field names are those of the class
  \<^verbatim>\<open>Esp32Sing\<close> without the trailing underscore.
\<close>

type_synonym byte = "8 word"
type_synonym size_t = "32 word"

text \<open>\<^verbatim>\<open>struct SingAudioChunk { uint8_t* data; size_t size; }\<close>; \<open>None\<close> is the null pointer,
  \<open>Some bs\<close> points to a heap block holding \<open>bs\<close>.\<close>

record SingAudioChunk =
  data :: "byte list option"
  size_c :: size_t

datatype DisplayMode = DISPLAY_MODE_SPECTRUM | DISPLAY_MODE_STATIC

datatype thread_handle = NotJoinable | Joinable

text \<open>\<^verbatim>\<open>AudioStreamPacket\<close> as the player fills it: the payload is the mono 16-bit samples.\<close>

record AudioStreamPacket =
  sample_rate :: int
  frame_duration :: int
  timestamp :: int
  payload :: "16 word list"

text \<open>
  Calls into the collaborators of the player (transport, application, codec, display,
  scheduler, condition variable, threads) are recorded in order in a trace, and so is
  each ID3 skip that the consumer applies to its read pointer.
\<close>

datatype event =
    NotifyOne
  | NotifyAll
  | Delay nat
  | SetHeader string string
  | AddAuthHeaders
  | HttpOpen string string
  | HttpWrite string
  | HttpClose
  | HttpRead
  | EnableOutput
  | ResetSampleRate
  | JoinLyricThread
  | JoinDownloadThread
  | JoinPlayThread
  | DetachDownloadThread
  | DetachPlayThread
  | SpawnDownloadFromUrl
  | SpawnDownloadById string
  | SpawnPlay
  | PlaySound
  | StartListening
  | ToggleChatState
  | SetMusicInfo string
  | DisplayStart
  | AddAudioData AudioStreamPacket
  | Id3Skip size_t

record player =
  base_host :: string
  open_timeout_ms :: int
  current_stream_url :: string
  current_query_value :: string
  current_song_id :: string
  current_song_name :: string
  song_name_displayed :: bool
  is_lyric_running :: bool
  lyric_thread :: thread_handle
  display_mode :: DisplayMode
  is_playing :: bool
  is_downloading :: bool
  play_thread :: thread_handle
  download_thread :: thread_handle
  current_play_time_ms :: int
  last_frame_time_ms :: int
  total_frames_decoded :: nat
  audio_buffer :: "SingAudioChunk list"
  buffer_size :: size_t
  mp3_decoder_initialized :: bool
  wav_mode :: bool
  wav_header_parsed :: bool
  wav_channels :: int
  wav_sample_rate :: int
  wav_bits_per_sample :: int
  last_downloaded_data :: string
  trace :: "event list"

definition MAX_BUFFER_SIZE :: size_t where
  "MAX_BUFFER_SIZE = 128 * 1024"

definition MIN_BUFFER_SIZE :: size_t where
  "MIN_BUFFER_SIZE = 16 * 1024"

text \<open>
  The object as the constructor and the in-class initialisers leave it, for a decoder
  that initialised and no host override in the settings.
\<close>

definition Esp32Sing :: player where
  "Esp32Sing = \<lparr>
     base_host = ''http://8.134.249.85:18080'',
     open_timeout_ms = 10000,
     current_stream_url = [],
     current_query_value = [],
     current_song_id = [],
     current_song_name = [],
     song_name_displayed = False,
     is_lyric_running = False,
     lyric_thread = NotJoinable,
     display_mode = DISPLAY_MODE_SPECTRUM,
     is_playing = False,
     is_downloading = False,
     play_thread = NotJoinable,
     download_thread = NotJoinable,
     current_play_time_ms = 0,
     last_frame_time_ms = 0,
     total_frames_decoded = 0,
     audio_buffer = [],
     buffer_size = 0,
     mp3_decoder_initialized = True,
     wav_mode = False,
     wav_header_parsed = False,
     wav_channels = 1,
     wav_sample_rate = 16000,
     wav_bits_per_sample = 16,
     last_downloaded_data = [],
     trace = [] \<rparr>"

definition emit :: "event \<Rightarrow> player \<Rightarrow> player" where
  "emit e s = s\<lparr>trace := trace s @ [e]\<rparr>"

section \<open>Suspension and interference\<close>

text \<open>
  A call returns, or leaves its thread suspended for good (\<open>Blocked\<close>), or loops without
  end (\<open>Spins\<close>), or accesses memory outside a block, where C++ defines no behaviour
  (\<open>Fault\<close>). The last three carry the shared object as it is then.
\<close>

datatype 'a outcome = Returns 'a | Blocked player | Spins player | Fault player

text \<open>Sequencing: what follows a call runs only when the call returns.\<close>

fun and_then :: "'a outcome \<Rightarrow> ('a \<Rightarrow> 'b outcome) \<Rightarrow> 'b outcome" where
  "and_then (Returns x) f = f x"
| "and_then (Blocked b) f = Blocked b"
| "and_then (Spins b) f = Spins b"
| "and_then (Fault b) f = Fault b"

text \<open>
  The other tasks change the shared object while a task is suspended or between two of
  its steps. Such a change is any function on the object; the trace is the log of the
  task under consideration and is kept.
\<close>

definition interfered :: "(player \<Rightarrow> player) \<Rightarrow> player \<Rightarrow> player" where
  "interfered f s = (f s)\<lparr>trace := trace s\<rparr>"

text \<open>
  \<^verbatim>\<open>buffer_cv_.wait(lock, pred)\<close> is \<^verbatim>\<open>while (!pred()) wait(lock);\<close>. The last argument
  lists the shared object as the waiter finds it at each later wake-up; when the list is
  used up the waiter is still suspended.
\<close>

fun cv_wait :: "(player \<Rightarrow> bool) \<Rightarrow> player \<Rightarrow> player list \<Rightarrow> player outcome" where
  "cv_wait pred s [] = (if pred s then Returns s else Blocked s)"
| "cv_wait pred s (s' # later) =
     (if pred s then Returns s else cv_wait pred (s'\<lparr>trace := trace s\<rparr>) later)"

section \<open>Bounded chunk queue\<close>

text \<open>
  \<^verbatim>\<open>ClearAudioBuffer\<close> (lines 159-167). It takes \<^verbatim>\<open>buffer_mutex_\<close>, a plain
  \<^verbatim>\<open>std::mutex\<close>, through a \<^verbatim>\<open>lock_guard\<close>: a caller that already owns the mutex never
  gets past that line. The first argument says whether the calling thread owns the mutex
  at the call, which is fixed by the \<^verbatim>\<open>lock_guard\<close> scopes of each call site.
\<close>

fun drain :: "SingAudioChunk list \<Rightarrow> SingAudioChunk list" where
  "drain [] = []"
| "drain (ch # rest) = drain rest"

definition ClearAudioBuffer :: "bool \<Rightarrow> player \<Rightarrow> player outcome" where
  "ClearAudioBuffer owns_mutex s =
     (if owns_mutex then Blocked s
      else Returns (s\<lparr>audio_buffer := drain (audio_buffer s), buffer_size := 0\<rparr>))"

text \<open>
  The push of \<^verbatim>\<open>DownloadAudioStreamFromUrl\<close> (lines 541-553), for a read of
  \<open>bytes_read\<close> bytes copied to \<open>chunk_data\<close>. The boolean is False when the chunk was
  freed instead of queued (the read loop then breaks).
\<close>

definition push_chunk ::
  "byte list \<Rightarrow> int \<Rightarrow> player \<Rightarrow> player list \<Rightarrow> (bool \<times> player) outcome" where
  "push_chunk chunk_data bytes_read s later =
     and_then
       (cv_wait (\<lambda>s. buffer_size s < MAX_BUFFER_SIZE \<or> \<not> is_downloading s) s later)
       (\<lambda>s1.
          if is_downloading s1 then
            Returns (True, emit NotifyOne (s1\<lparr>
              audio_buffer := audio_buffer s1 @
                [\<lparr>data = Some chunk_data, size_c = word_of_int bytes_read\<rparr>],
              buffer_size := buffer_size s1 + word_of_int bytes_read\<rparr>))
          else Returns (False, s1))"

text \<open>
  The pop of \<^verbatim>\<open>PlayAudioStream\<close> (lines 642-657): \<open>EndOfStream\<close> is the \<^verbatim>\<open>break\<close> of
  line 648, \<open>Retry\<close> the \<^verbatim>\<open>continue\<close> of line 651.
\<close>

datatype pop_result = EndOfStream | Retry | Popped SingAudioChunk

definition take_front :: "player \<Rightarrow> (pop_result \<times> player) outcome" where
  "take_front s =
     (case audio_buffer s of
        [] \<Rightarrow> Returns (Retry, s)
      | chunk # rest \<Rightarrow>
          Returns (Popped chunk, emit NotifyOne (s\<lparr>
            audio_buffer := rest,
            buffer_size := buffer_size s - size_c chunk\<rparr>)))"

definition pop_chunk :: "player \<Rightarrow> player list \<Rightarrow> (pop_result \<times> player) outcome" where
  "pop_chunk s later =
     (if audio_buffer s = [] then
        if \<not> is_downloading s then Returns (EndOfStream, s)
        else
          and_then
            (cv_wait (\<lambda>s. audio_buffer s \<noteq> [] \<or> \<not> is_downloading s) s later)
            take_front
      else take_front s)"

text \<open>
  Sequences of queue operations. A push carries the bytes of one successful read; an
  operation that would suspend its thread leaves the queue as it is.
\<close>

datatype queue_op = Push "byte list" | Pop | Clear

fun apply_op :: "queue_op \<Rightarrow> player \<Rightarrow> player" where
  "apply_op (Push bs) s =
     (case push_chunk bs (int (length bs)) s [] of
        Returns (_, s') \<Rightarrow> s' | _ \<Rightarrow> s)"
| "apply_op Pop s =
     (case pop_chunk s [] of Returns (_, s') \<Rightarrow> s' | _ \<Rightarrow> s)"
| "apply_op Clear s =
     (case ClearAudioBuffer False s of Returns s' \<Rightarrow> s' | _ \<Rightarrow> s)"

fun run_ops :: "queue_op list \<Rightarrow> player \<Rightarrow> player" where
  "run_ops [] s = s"
| "run_ops (a # ops) s = run_ops ops (apply_op a s)"

text \<open>A read into the 4096-byte stack buffer that reached the push returned 1..4096 bytes.\<close>

fun read_sized :: "queue_op \<Rightarrow> bool" where
  "read_sized (Push bs) = (0 < length bs \<and> length bs \<le> 4096)"
| "read_sized _ = True"

definition resident_bytes :: "player \<Rightarrow> nat" where
  "resident_bytes s = sum_list (map (\<lambda>ch. unat (size_c ch)) (audio_buffer s))"

definition queue_inv :: "player \<Rightarrow> bool" where
  "queue_inv s \<longleftrightarrow>
     unat (buffer_size s) = resident_bytes s \<and> resident_bytes s < 128 * 1024 + 4096"

section \<open>Consumer: PlayAudioStream\<close>

subsection \<open>Bytes\<close>

definition tag :: "string \<Rightarrow> byte list" where
  "tag str = map (\<lambda>ch. of_nat (of_char ch)) str"

text \<open>\<^verbatim>\<open>memcmp(p + off, lit, n) == 0\<close> for a literal of \<open>n\<close> bytes.\<close>

definition memcmp_eq :: "byte list \<Rightarrow> nat \<Rightarrow> byte list \<Rightarrow> bool" where
  "memcmp_eq mem off lit \<longleftrightarrow> take (length lit) (drop off mem) = lit"

text \<open>Little-endian reads, as the casts \<^verbatim>\<open>*(uint16_t*)\<close> and \<^verbatim>\<open>*(uint32_t*)\<close> do on this target.\<close>

definition u16_at :: "byte list \<Rightarrow> nat \<Rightarrow> 16 word" where
  "u16_at mem off = ucast (mem ! off) OR push_bit 8 (ucast (mem ! (off + 1)))"

definition u32_at :: "byte list \<Rightarrow> nat \<Rightarrow> 32 word" where
  "u32_at mem off =
     ucast (mem ! off) OR push_bit 8 (ucast (mem ! (off + 1)))
       OR push_bit 16 (ucast (mem ! (off + 2))) OR push_bit 24 (ucast (mem ! (off + 3)))"

text \<open>\<^verbatim>\<open>memmove(p + dst, p + src, n)\<close> inside one block.\<close>

definition memmove :: "byte list \<Rightarrow> nat \<Rightarrow> nat \<Rightarrow> nat \<Rightarrow> byte list" where
  "memmove mem dst src n = take dst mem @ take n (drop src mem) @ drop (dst + n) mem"

text \<open>Integer division of C truncates towards zero.\<close>

definition c_div :: "int \<Rightarrow> int \<Rightarrow> int" where
  "c_div a b = sgn a * sgn b * (\<bar>a\<bar> div \<bar>b\<bar>)"

subsection \<open>Locals of PlayAudioStream\<close>

text \<open>
  \<open>read_ptr\<close> is \<open>None\<close> for the null pointer and \<open>Some k\<close> for
  \<^verbatim>\<open>mp3_input_buffer + k\<close>. The counter \<^verbatim>\<open>total_played\<close> is only logged and is left out.
\<close>

record play_locals =
  mp3_input_buffer :: "byte list"
  bytes_left :: int
  read_ptr :: "nat option"
  id3_processed :: bool

datatype DeviceState =
  kDeviceStateIdle | kDeviceStateListening | kDeviceStateSpeaking | kDeviceStateOther

datatype step = Proceed | Continue | Break

subsection \<open>Priming wait (lines 601-604)\<close>

definition priming_ready :: "player \<Rightarrow> bool" where
  "priming_ready s \<longleftrightarrow>
     buffer_size s \<ge> MIN_BUFFER_SIZE \<or> (\<not> is_downloading s \<and> audio_buffer s \<noteq> [])"

definition priming_wait :: "player \<Rightarrow> player list \<Rightarrow> player outcome" where
  "priming_wait s later = cv_wait priming_ready s later"

subsection \<open>Format detection (lines 660-705)\<close>

type_synonym scan_state = "play_locals \<times> player \<times> SingAudioChunk"

text \<open>
  One pass of the sub-chunk loop (lines 667-697) at offset \<open>pos\<close>; the result is the
  next offset, \<^verbatim>\<open>pos + 8 + chunk_size\<close> in \<^verbatim>\<open>size_t\<close> arithmetic.
\<close>

definition wav_scan_step :: "size_t \<Rightarrow> scan_state \<Rightarrow> (size_t \<times> scan_state) outcome" where
  "wav_scan_step pos st =
     (case st of (c, s, chunk) \<Rightarrow>
       (case data chunk of
          None \<Rightarrow> Fault s
        | Some mem \<Rightarrow>
            if length mem < unat pos + 8 then Fault s
            else
              let chunk_size = u32_at mem (unat pos + 4);
                  has_fmt = (memcmp_eq mem (unat pos) (tag ''fmt '') \<and> pos + 8 + 16 \<le> size_c chunk)
              in
                if has_fmt \<and> length mem < unat pos + 24 then Fault s
                else
                  let s1 = (if has_fmt
                            then s\<lparr>wav_channels := uint (u16_at mem (unat pos + 10)),
                                   wav_sample_rate := sint (u32_at mem (unat pos + 12)),
                                   wav_bits_per_sample := uint (u16_at mem (unat pos + 22))\<rparr>
                            else s)
                  in
                    if memcmp_eq mem (unat pos) (tag ''data'') then
                      let data_offset = pos + 8;
                          remain = (if data_offset < size_c chunk
                                    then size_c chunk - data_offset else 0)
                      in
                        if 0 < remain \<and> length mem < unat data_offset + unat remain then Fault s1
                        else
                          Returns (pos + 8 + chunk_size,
                            (c\<lparr>id3_processed := True\<rparr>,
                             s1\<lparr>wav_header_parsed := True\<rparr>,
                             (if 0 < remain
                              then chunk\<lparr>data := Some (memmove mem 0 (unat data_offset) (unat remain)),
                                         size_c := remain\<rparr>
                              else chunk\<lparr>size_c := 0\<rparr>)))
                    else Returns (pos + 8 + chunk_size, (c, s1, chunk))))"

text \<open>
  The loop \<^verbatim>\<open>while (pos + 8 <= chunk.size)\<close> of line 666. Nothing bounds the number of
  passes (the offset wraps in \<^verbatim>\<open>size_t\<close>), so a run that never leaves the loop is \<open>None\<close>.
\<close>

partial_function (option) wav_scan :: "size_t \<Rightarrow> scan_state \<Rightarrow> scan_state outcome option" where
  "wav_scan pos st =
     (if pos + 8 \<le> size_c (snd (snd st)) then
        (case wav_scan_step pos st of
           Returns (pos', st') \<Rightarrow> wav_scan pos' st'
         | Blocked b \<Rightarrow> Some (Blocked b)
         | Spins b \<Rightarrow> Some (Spins b)
         | Fault b \<Rightarrow> Some (Fault b))
      else Some (Returns st))"

definition detect_format :: "play_locals \<Rightarrow> player \<Rightarrow> SingAudioChunk \<Rightarrow> scan_state outcome" where
  "detect_format c s chunk =
     (if \<not> wav_header_parsed s then
        (case data chunk of
           None \<Rightarrow> Fault s
         | Some mem \<Rightarrow>
             if size_c chunk \<ge> 44 then
               if length mem < 4 then Fault s
               else if \<not> memcmp_eq mem 0 (tag ''RIFF'') then Returns (c, s, chunk)
               else if length mem < 12 then Fault s
               else if \<not> memcmp_eq mem 8 (tag ''WAVE'') then Returns (c, s, chunk)
               else
                 (case wav_scan 12 (c, s\<lparr>wav_mode := True\<rparr>, chunk) of
                    None \<Rightarrow> Spins (s\<lparr>wav_mode := True\<rparr>)
                  | Some r \<Rightarrow> r)
             else Returns (c, s, chunk))
      else Returns (c, s, chunk))"

subsection \<open>ID3 tag (lines 842-847 and 714-721)\<close>

text \<open>\<open>mem\<close> is the memory from the pointer \<^verbatim>\<open>data\<close> on.\<close>

definition SkipId3Tag :: "byte list \<Rightarrow> size_t \<Rightarrow> size_t" where
  "SkipId3Tag mem size' =
     (if size' < 10 then 0
      else if \<not> memcmp_eq mem 0 (tag ''ID3'') then 0
      else
        let tag_size =
              push_bit 21 (ucast (mem ! 6 AND 0x7F)) OR push_bit 14 (ucast (mem ! 7 AND 0x7F))
                OR push_bit 7 (ucast (mem ! 8 AND 0x7F)) OR ucast (mem ! 9 AND 0x7F)
        in 10 + tag_size)"

definition id3_step :: "play_locals \<Rightarrow> player \<Rightarrow> play_locals \<times> player" where
  "id3_step c s =
     (if \<not> id3_processed c \<and> \<not> wav_mode s \<and> bytes_left c \<ge> 10 then
        (case read_ptr c of
           None \<Rightarrow> (c\<lparr>id3_processed := True\<rparr>, s)
         | Some p \<Rightarrow>
             let skip = SkipId3Tag (drop p (mp3_input_buffer c)) (word_of_int (bytes_left c))
             in if 0 < skip
                then (c\<lparr>read_ptr := Some (p + unat skip),
                        bytes_left := bytes_left c - sint skip,
                        id3_processed := True\<rparr>,
                      emit (Id3Skip skip) s)
                else (c\<lparr>id3_processed := True\<rparr>, s))
      else (c, s))"

subsection \<open>Filling the input window (lines 706-722)\<close>

definition fill_input :: "SingAudioChunk \<Rightarrow> play_locals \<Rightarrow> player \<Rightarrow> (play_locals \<times> player) outcome" where
  "fill_input chunk c s =
     (case data chunk of
        None \<Rightarrow> Fault s
      | Some mem \<Rightarrow>
          let buf = mp3_input_buffer c;
              n = bytes_left c;
              compact = (0 < n \<and> read_ptr c \<noteq> Some 0)
          in
            if compact \<and> (case read_ptr c of None \<Rightarrow> True | Some p \<Rightarrow> length buf < p + nat n)
            then Fault s
            else
              let buf1 = (case read_ptr c of
                            Some p \<Rightarrow> if compact then memmove buf 0 p (nat n) else buf
                          | None \<Rightarrow> buf);
                  space = (word_of_int (8192 - n) :: size_t);
                  copy_size = min (size_c chunk) space
              in
                if 0 < copy_size \<and>
                   (n < 0 \<or> length buf1 < nat n + unat copy_size \<or> length mem < unat copy_size)
                then Fault s
                else
                  Returns (id3_step
                    (c\<lparr>mp3_input_buffer :=
                         take (nat n) buf1 @ take (unat copy_size) mem
                           @ drop (nat n + unat copy_size) buf1,
                       bytes_left := n + sint copy_size,
                       read_ptr := Some 0\<rparr>) s))"

text \<open>Lines 658-723: what the consumer does with a popped chunk.\<close>

definition ingest :: "SingAudioChunk \<Rightarrow> play_locals \<Rightarrow> player \<Rightarrow> (play_locals \<times> player) outcome" where
  "ingest chunk c s =
     (if data chunk \<noteq> None \<and> 0 < size_c chunk then
        and_then (detect_format c s chunk)
          (\<lambda>st. case st of (c1, s1, chunk1) \<Rightarrow> fill_input chunk1 c1 s1)
      else Returns (c, s))"

subsection \<open>WAV playback (lines 726-760)\<close>

definition downmix :: "16 word \<Rightarrow> 16 word \<Rightarrow> 16 word" where
  "downmix left right = word_of_int (c_div (sint left + sint right) 2)"

definition wav_play :: "play_locals \<Rightarrow> player \<Rightarrow> (play_locals \<times> player) outcome" where
  "wav_play c s =
     (if 0 < bytes_left c then
        (case read_ptr c of
           None \<Rightarrow> Fault s
         | Some p \<Rightarrow>
             let pcm16 = (\<lambda>i. u16_at (mp3_input_buffer c) (p + 2 * i));
                 sample_count = c_div (bytes_left c) 2;
                 mono_samples = c_div sample_count 2;
                 used = (if wav_channels s = 2 then 2 * nat mono_samples else nat sample_count)
             in
               if length (mp3_input_buffer c) < p + 2 * used then Fault s
               else
                 let mono = (if wav_channels s = 2
                             then map (\<lambda>i. downmix (pcm16 (i * 2)) (pcm16 (i * 2 + 1)))
                                    [0..<nat mono_samples]
                             else map pcm16 [0..<nat sample_count]);
                     packet = \<lparr>sample_rate = wav_sample_rate s, frame_duration = 60,
                               timestamp = 0, payload = mono\<rparr>
                 in Returns (c\<lparr>bytes_left := 0\<rparr>, emit (AddAudioData packet) s))
      else Returns (c, emit (Delay 1) s))"

subsection \<open>MP3 decoding (lines 762-821)\<close>

text \<open>
  The decoder is an external library. One call of it is described by what it returned:
  whether \<^verbatim>\<open>MP3InitDecoder\<close> gave a decoder, the result of \<^verbatim>\<open>MP3FindSyncWord\<close>, the result
  of \<^verbatim>\<open>MP3Decode\<close> with the number of input bytes it took, the frame information and the
  PCM it wrote.
\<close>

record mp3_call =
  init_ok :: bool
  sync_offset :: int
  decode_result :: int
  consumed :: nat
  samprate :: int
  nChans :: int
  outputSamps :: int
  pcm_buffer :: "16 word list"

definition advance :: "nat option \<Rightarrow> nat \<Rightarrow> nat option" where
  "advance p k = (case p of None \<Rightarrow> None | Some q \<Rightarrow> Some (q + k))"

definition mp3_step :: "mp3_call \<Rightarrow> play_locals \<Rightarrow> player \<Rightarrow> (step \<times> play_locals \<times> player) outcome" where
  "mp3_step m c s =
     (if \<not> mp3_decoder_initialized s \<and> \<not> init_ok m then
        Returns (Break, c, s\<lparr>is_playing := False\<rparr>)
      else
        let s0 = s\<lparr>mp3_decoder_initialized := True\<rparr> in
        if sync_offset m < 0 then Returns (Continue, c\<lparr>bytes_left := 0\<rparr>, s0)
        else
          let c1 = (if 0 < sync_offset m
                    then c\<lparr>read_ptr := advance (read_ptr c) (nat (sync_offset m)),
                           bytes_left := bytes_left c - sync_offset m\<rparr>
                    else c);
              c2 = c1\<lparr>read_ptr := advance (read_ptr c1) (consumed m),
                      bytes_left := bytes_left c1 - int (consumed m)\<rparr>
          in
            if decode_result m = 0 then
              let s1 = s0\<lparr>total_frames_decoded := total_frames_decoded s0 + 1\<rparr> in
              if samprate m = 0 \<or> nChans m = 0 then Returns (Continue, c2, s1)
              else
                let frame_duration_ms = c_div (outputSamps m * 1000) (samprate m * nChans m);
                    s2 = s1\<lparr>current_play_time_ms := current_play_time_ms s1 + frame_duration_ms\<rparr>;
                    mono_samples = c_div (outputSamps m) 2;
                    used = (if nChans m = 2 then 2 * nat mono_samples else nat (outputSamps m))
                in
                  if length (pcm_buffer m) < used then Fault s2
                  else
                    let final = (if nChans m = 2
                                 then map (\<lambda>i. downmix (pcm_buffer m ! (i * 2)) (pcm_buffer m ! (i * 2 + 1)))
                                        [0..<nat mono_samples]
                                 else take (nat (outputSamps m)) (pcm_buffer m));
                        packet = \<lparr>sample_rate = samprate m, frame_duration = 60,
                                  timestamp = 0, payload = final\<rparr>
                    in Returns (Continue, c2, emit (AddAudioData packet) s2)
            else Returns (Continue, c2, emit (Delay 1) s0))"

subsection \<open>The playback loop (lines 618-822)\<close>

text \<open>The label of line 634, in UTF-8.\<close>

definition now_playing_label :: "string \<Rightarrow> string" where
  "now_playing_label name =
     map char_of [0xE3, 0x80, 0x8A :: nat] @ name
       @ map char_of [0xE3, 0x80, 0x8B, 0xE6, 0x92, 0xAD, 0xE6, 0x94, 0xBE, 0xE4, 0xB8, 0xAD :: nat]
       @ ''...''"

definition show_song_name :: "bool \<Rightarrow> player \<Rightarrow> player" where
  "show_song_name display_present s =
     (if \<not> song_name_displayed s \<and> current_song_name s \<noteq> [] \<and> display_present then
        let s1 = (emit (SetMusicInfo (now_playing_label (current_song_name s))) s)
                   \<lparr>song_name_displayed := True\<rparr>
        in if display_mode s1 = DISPLAY_MODE_SPECTRUM then emit DisplayStart s1 else s1
      else s)"

text \<open>
  What one pass of the loop meets: the changes the other tasks made since the previous
  pass, the device state, whether the board has a display, the wake-ups of the pop, and
  the decoder call.
\<close>

record play_env =
  others :: "player \<Rightarrow> player"
  device_state :: DeviceState
  display_present :: bool
  pop_later :: "player list"
  mp3 :: mp3_call

text \<open>Lines 641-724.\<close>

definition fetch :: "play_env \<Rightarrow> play_locals \<Rightarrow> player \<Rightarrow> (step \<times> play_locals \<times> player) outcome" where
  "fetch env c s =
     (if bytes_left c < 4096 then
        and_then (pop_chunk s (pop_later env))
          (\<lambda>r. case r of
                  (EndOfStream, s1) \<Rightarrow> Returns (Break, c, s1)
                | (Retry, s1) \<Rightarrow> Returns (Continue, c, s1)
                | (Popped chunk, s1) \<Rightarrow>
                    and_then (ingest chunk c s1) (\<lambda>r. Returns (Proceed, fst r, snd r)))
      else Returns (Proceed, c, s))"

definition play_iteration :: "play_env \<Rightarrow> play_locals \<Rightarrow> player \<Rightarrow> (step \<times> play_locals \<times> player) outcome" where
  "play_iteration env c s =
     (if device_state env = kDeviceStateListening \<or> device_state env = kDeviceStateSpeaking then
        Returns (Continue, c, emit (Delay 300) (emit ToggleChatState s))
      else if device_state env \<noteq> kDeviceStateIdle then
        Returns (Continue, c, emit (Delay 50) s)
      else
        and_then (fetch env c (show_song_name (display_present env) s))
          (\<lambda>r. case r of
                  (Proceed, c1, s1) \<Rightarrow>
                    if wav_mode s1 then
                      and_then (wav_play c1 s1) (\<lambda>r. Returns (Continue, fst r, snd r))
                    else mp3_step (mp3 env) c1 s1
                | (ctl, c1, s1) \<Rightarrow> Returns (ctl, c1, s1)))"

text \<open>
  \<^verbatim>\<open>while (is_playing_)\<close>. A task that has used up the list of passes is not scheduled
  again.
\<close>

fun play_loop :: "play_env list \<Rightarrow> play_locals \<Rightarrow> player \<Rightarrow> (play_locals \<times> player) outcome" where
  "play_loop [] c s = Blocked s"
| "play_loop (env # envs) c s =
     (let s0 = interfered (others env) s in
      if \<not> is_playing s0 then Returns (c, s0)
      else
        and_then (play_iteration env c s0)
          (\<lambda>r. case r of
                  (Break, c1, s1) \<Rightarrow> Returns (c1, s1)
                | (_, c1, s1) \<Rightarrow> play_loop envs c1 s1))"

text \<open>
  The whole task. \<open>input_alloc\<close> is the block that \<^verbatim>\<open>heap_caps_malloc(8192)\<close> returned,
  \<open>None\<close> when it failed.
\<close>

record play_setup =
  codec_present :: bool
  output_enabled :: bool
  priming_later :: "player list"
  input_alloc :: "byte list option"
  display_at_exit :: bool

definition PlayAudioStream :: "play_setup \<Rightarrow> play_env list \<Rightarrow> player \<Rightarrow> player outcome" where
  "PlayAudioStream setup envs s =
     (let s0 = s\<lparr>current_play_time_ms := 0, last_frame_time_ms := 0, total_frames_decoded := 0\<rparr> in
      if \<not> codec_present setup then Returns (s0\<lparr>is_playing := False\<rparr>)
      else
        and_then
          (priming_wait (if \<not> output_enabled setup then emit EnableOutput s0 else s0)
             (priming_later setup))
          (\<lambda>s1. case input_alloc setup of
                   None \<Rightarrow> Returns (s1\<lparr>is_playing := False\<rparr>)
                 | Some block \<Rightarrow>
                     and_then
                       (play_loop envs
                          \<lparr>mp3_input_buffer = block, bytes_left = 0, read_ptr = None,
                           id3_processed = False\<rparr> s1)
                       (\<lambda>r. let s2 = emit ResetSampleRate ((snd r)\<lparr>is_playing := False\<rparr>)
                             in Returns (if display_at_exit setup
                                         then emit (SetMusicInfo []) s2 else s2))))"

section \<open>Producer: DownloadAudioStreamFromUrl\<close>

text \<open>\<^verbatim>\<open>str.find(sub) != std::string::npos\<close>.\<close>

fun contains :: "string \<Rightarrow> string \<Rightarrow> bool" where
  "contains [] sub = (sub = [])"
| "contains (ch # rest) sub = (take (length sub) (ch # rest) = sub \<or> contains rest sub)"

text \<open>
  What the transport does in one session: the results of the successive calls of
  \<^verbatim>\<open>Open\<close> (a call beyond the list fails), the status code, the clock at the start of the
  read loop, and the reads. A read gives the return value of \<^verbatim>\<open>Read\<close>, the 4096-byte
  stack buffer after it, the clock, whether the chunk could be allocated, and the
  wake-ups of the push.
\<close>

record read_step =
  meanwhile :: "player \<Rightarrow> player"
  bytes_read :: int
  buffer :: "byte list"
  now_ms :: int
  chunk_alloc_ok :: bool
  push_later :: "player list"

record download_env =
  open_results :: "bool list"
  status_code :: int
  start_ts_read :: int
  reads :: "read_step list"

definition http_open :: "string \<Rightarrow> bool list \<Rightarrow> player \<Rightarrow> bool \<times> bool list \<times> player" where
  "http_open method results s =
     (case results of
        [] \<Rightarrow> (False, [], emit (HttpOpen method (current_stream_url s)) s)
      | r # rest \<Rightarrow> (r, rest, emit (HttpOpen method (current_stream_url s)) s))"

text \<open>Lines 419-424 and 443-448.\<close>

definition open_with_retry :: "string \<Rightarrow> bool list \<Rightarrow> player \<Rightarrow> bool \<times> bool list \<times> player" where
  "open_with_retry method results s =
     (case http_open method results s of
        (opened, rest, s1) \<Rightarrow>
          if \<not> opened then http_open method rest (emit (Delay 500) s1)
          else (opened, rest, s1))"

text \<open>Lines 472-477 (the same text at 499-504 and 569-574).\<close>

definition stop_lyric_thread :: "player \<Rightarrow> player" where
  "stop_lyric_thread s =
     (if is_lyric_running s then
        let s1 = s\<lparr>is_lyric_running := False\<rparr>
        in if lyric_thread s1 = Joinable
           then (emit JoinLyricThread s1)\<lparr>lyric_thread := NotJoinable\<rparr>
           else s1
      else s)"

text \<open>
  Lines 461-477 (the same text at 488-504 and 559-574). \<^verbatim>\<open>ClearAudioBuffer\<close> is called
  inside the scope of the \<^verbatim>\<open>lock_guard\<close> on \<^verbatim>\<open>buffer_mutex_\<close> opened one line before.
\<close>

definition basic_cleanup :: "player \<Rightarrow> player outcome" where
  "basic_cleanup s =
     (let s1 = emit ResetSampleRate (emit (Delay 100) s);
          s2 = s1\<lparr>is_downloading := False, is_playing := False\<rparr>;
          s3 = emit NotifyAll s2
      in and_then (ClearAudioBuffer True s3) (\<lambda>s4. Returns (stop_lyric_thread s4)))"

text \<open>
  The read loop (lines 517-554). The boolean of the result is \<^verbatim>\<open>first_byte_timeout\<close>.
  \<^verbatim>\<open>Read\<close> blocks, so a task that has used up the list of reads stays in it.
\<close>

fun read_loop :: "int \<Rightarrow> read_step list \<Rightarrow> bool \<Rightarrow> player \<Rightarrow> (bool \<times> player) outcome" where
  "read_loop start [] got_first_byte s =
     (if is_downloading s \<and> is_playing s then Blocked (emit HttpRead s) else Returns (False, s))"
| "read_loop start (r # rs) got_first_byte s =
     (if \<not> (is_downloading s \<and> is_playing s) then Returns (False, s)
      else
        let s1 = emit HttpRead s in
        if bytes_read r < 0 then Returns (False, s1)
        else if bytes_read r = 0 then
          if \<not> got_first_byte then
            if now_ms r - start \<ge> open_timeout_ms s1 then Returns (True, s1)
            else read_loop start rs got_first_byte (interfered (meanwhile r) (emit (Delay 50) s1))
          else Returns (False, s1)
        else if \<not> chunk_alloc_ok r then Returns (False, s1)
        else
          and_then (push_chunk (take (nat (bytes_read r)) (buffer r)) (bytes_read r) s1 (push_later r))
            (\<lambda>p. case p of
                    (True, s2) \<Rightarrow> read_loop start rs True (interfered (meanwhile r) s2)
                  | (False, s2) \<Rightarrow> Returns (False, s2)))"

definition crlf :: string where
  "crlf = [CHR 0x0D, CHR 0x0A]"

definition boundary :: string where
  "boundary = ''----ESP32_SING_BOUNDARY''"

text \<open>Lines 404-410; the authentication headers are built by a collaborator.\<close>

definition set_request_headers :: "player \<Rightarrow> player" where
  "set_request_headers s =
     emit AddAuthHeaders
       (emit (SetHeader ''Connection'' ''close'')
         (emit (SetHeader ''Range'' ''bytes=0-'')
           (emit (SetHeader ''Accept'' ''*/*'')
             (emit (SetHeader ''User-Agent'' ''ESP32-Sing-Player/1.0'') s))))"

text \<open>Lines 431-440.\<close>

definition write_form :: "player \<Rightarrow> player" where
  "write_form s =
     emit (HttpWrite [])
       (emit (HttpWrite (''--'' @ boundary @ ''--'' @ crlf))
         (emit (HttpWrite (''--'' @ boundary @ crlf
              @ ''Content-Disposition: form-data; name='' @ [CHR 0x22] @ ''query'' @ [CHR 0x22]
              @ crlf @ crlf @ current_query_value s @ crlf)) s))"

text \<open>Line 413 and lines 404-417: the method and the headers of the request.\<close>

definition request_method :: "player \<Rightarrow> string" where
  "request_method s =
     (if contains (current_stream_url s) ''/convert_stream_simple'' then ''POST'' else ''GET'')"

definition prepare_request :: "player \<Rightarrow> player" where
  "prepare_request s =
     (let s1 = set_request_headers s in
      if request_method s = ''POST''
      then emit (SetHeader ''Transfer-Encoding'' ''chunked'')
             (emit (SetHeader ''Content-Type'' (''multipart/form-data; boundary='' @ boundary)) s1)
      else s1)"

text \<open>\<^verbatim>\<open>DownloadAudioStreamFromUrl\<close> (lines 394-581).\<close>

definition DownloadAudioStreamFromUrl :: "download_env \<Rightarrow> player \<Rightarrow> player outcome" where
  "DownloadAudioStreamFromUrl env s =
     (if current_stream_url s = [] then Returns (s\<lparr>is_downloading := False\<rparr>)
      else
        case open_with_retry (request_method s) (open_results env) (prepare_request s) of
          (opened, _, s3) \<Rightarrow>
            if \<not> opened then Returns (s3\<lparr>is_downloading := False\<rparr>)
            else
              let s4 = (if request_method s = ''POST'' then write_form s3 else s3) in
              if status_code env = 404 then
                and_then (basic_cleanup (emit HttpClose s4))
                  (\<lambda>s5. Returns (emit StartListening (emit PlaySound s5)))
              else if status_code env \<noteq> 200 \<and> status_code env \<noteq> 206 then
                basic_cleanup (emit HttpClose s4)
              else
                and_then (read_loop (start_ts_read env) (reads env) False s4)
                  (\<lambda>r. case r of
                          (first_byte_timeout, s5) \<Rightarrow>
                            if first_byte_timeout then basic_cleanup (emit HttpClose s5)
                            else Returns (emit NotifyAll
                                   ((emit HttpClose s5)\<lparr>is_downloading := False\<rparr>))))"

text \<open>\<^verbatim>\<open>url_encode_simple\<close> (lines 86-105).\<close>

definition hex_digit :: "nat \<Rightarrow> char" where
  "hex_digit n = ''0123456789ABCDEF'' ! n"

definition encode_char :: "char \<Rightarrow> string" where
  "encode_char ch =
     (let k = (of_char ch :: nat) in
      if (of_char CHR ''A'' \<le> k \<and> k \<le> of_char CHR ''Z'') \<or> (of_char CHR ''a'' \<le> k \<and> k \<le> of_char CHR ''z'')
         \<or> (of_char CHR ''0'' \<le> k \<and> k \<le> of_char CHR ''9'')
         \<or> ch = CHR ''-'' \<or> ch = CHR ''_'' \<or> ch = CHR ''.'' \<or> ch = CHR ''~''
      then [ch]
      else if ch = CHR '' '' then ''%20''
      else if ch = CHR ''+'' then ''%2B''
      else [CHR ''%'', hex_digit (k div 16), hex_digit (k mod 16)])"

definition url_encode_simple :: "string \<Rightarrow> string" where
  "url_encode_simple str = concat (map encode_char str)"

text \<open>\<^verbatim>\<open>DownloadAudioStreamById\<close> (lines 385-392).\<close>

definition DownloadAudioStreamById :: "string \<Rightarrow> download_env \<Rightarrow> player \<Rightarrow> player outcome" where
  "DownloadAudioStreamById song_id env s =
     (let query_raw = (if song_id = [] then current_song_id s else song_id)
      in DownloadAudioStreamFromUrl env
           (s\<lparr>current_query_value := query_raw,
              current_stream_url := base_host s @ ''/stream?raw_query='' @ url_encode_simple query_raw\<rparr>))"

section \<open>Stream session controller\<close>

text \<open>
  The polling loops. \<^verbatim>\<open>joinable()\<close> of a \<^verbatim>\<open>std::thread\<close> stays true until the owner joins
  or detaches it, whether or not the task has ended.
\<close>

fun poll_joinable :: "nat \<Rightarrow> (player \<Rightarrow> thread_handle) \<Rightarrow> player \<Rightarrow> player" where
  "poll_joinable 0 handle s = s"
| "poll_joinable (Suc n) handle s =
     (let s1 = emit (Delay 10) s
      in if handle s1 \<noteq> Joinable then s1 else poll_joinable n handle s1)"

fun delay_times :: "nat \<Rightarrow> player \<Rightarrow> player" where
  "delay_times 0 s = s"
| "delay_times (Suc n) s = delay_times n (emit (Delay 10) s)"

definition max_waits :: nat where
  "max_waits = 100"

text \<open>Lines 263-277 (the same text at 325-339).\<close>

definition abandon_play_thread :: "player \<Rightarrow> player" where
  "abandon_play_thread s =
     (if play_thread s = Joinable then
        let s1 = delay_times max_waits (emit NotifyAll (s\<lparr>is_playing := False\<rparr>))
        in if play_thread s1 = Joinable
           then (emit DetachPlayThread s1)\<lparr>play_thread := NotJoinable\<rparr>
           else s1
      else s)"

text \<open>\<^verbatim>\<open>StartStreaming\<close> (lines 230-303).\<close>

definition StartStreaming :: "string \<Rightarrow> player \<Rightarrow> (bool \<times> player) outcome" where
  "StartStreaming music_url s =
     (if music_url = [] then Returns (False, s)
      else
        let s1 = emit NotifyAll (s\<lparr>is_downloading := False, is_playing := False\<rparr>);
            s2 = (if download_thread s1 = Joinable then
                    let s' = poll_joinable max_waits download_thread s1
                    in if download_thread s' = Joinable
                       then (emit DetachDownloadThread s')\<lparr>download_thread := NotJoinable\<rparr>
                       else s'
                  else s1);
            s3 = abandon_play_thread s2
        in
          and_then (ClearAudioBuffer False s3)
            (\<lambda>s4.
               let s5 = s4\<lparr>wav_mode := False, wav_header_parsed := False, wav_channels := 1,
                          wav_sample_rate := 16000, wav_bits_per_sample := 16,
                          current_stream_url := music_url\<rparr>;
                   s6 = (emit SpawnDownloadFromUrl (s5\<lparr>is_downloading := True\<rparr>))
                          \<lparr>download_thread := Joinable\<rparr>;
                   s7 = (emit SpawnPlay (s6\<lparr>is_playing := True\<rparr>))\<lparr>play_thread := Joinable\<rparr>
               in Returns (True, s7)))"

text \<open>
  A join returns when the joined task has ended; \<open>download_exit\<close> and \<open>play_exit\<close> are what
  the two tasks still did to the shared object before they ended.
\<close>

record join_env =
  download_exit :: "player \<Rightarrow> player"
  play_exit :: "player \<Rightarrow> player"

definition join_download :: "join_env \<Rightarrow> player \<Rightarrow> player" where
  "join_download env s =
     (if download_thread s = Joinable
      then (emit JoinDownloadThread (interfered (download_exit env) s))\<lparr>download_thread := NotJoinable\<rparr>
      else s)"

text \<open>\<^verbatim>\<open>StartStreamingById\<close> (lines 305-358).\<close>

definition StartStreamingById :: "string \<Rightarrow> join_env \<Rightarrow> player \<Rightarrow> (bool \<times> player) outcome" where
  "StartStreamingById song_id env s =
     (if song_id = [] then Returns (False, s)
      else
        let s1 = emit NotifyAll (s\<lparr>is_downloading := False, is_playing := False\<rparr>);
            s2 = join_download env s1;
            s3 = abandon_play_thread s2
        in
          and_then (ClearAudioBuffer False s3)
            (\<lambda>s4.
               let s5 = s4\<lparr>current_song_id := song_id\<rparr>;
                   s6 = (emit (SpawnDownloadById song_id) (s5\<lparr>is_downloading := True\<rparr>))
                          \<lparr>download_thread := Joinable\<rparr>;
                   s7 = (emit SpawnPlay (s6\<lparr>is_playing := True\<rparr>))\<lparr>play_thread := Joinable\<rparr>
               in Returns (True, s7)))"

text \<open>\<^verbatim>\<open>StopStreaming\<close> (lines 360-383).\<close>

definition StopStreaming :: "join_env \<Rightarrow> player \<Rightarrow> (bool \<times> player) outcome" where
  "StopStreaming env s =
     (let s0 = emit ResetSampleRate s in
      if \<not> is_playing s0 \<and> \<not> is_downloading s0 then Returns (True, s0)
      else
        let s1 = emit NotifyAll (s0\<lparr>is_downloading := False, is_playing := False\<rparr>);
            s2 = join_download env s1;
            s3 = (if play_thread s2 = Joinable then
                    let s' = poll_joinable max_waits play_thread
                               (emit NotifyAll (s2\<lparr>is_playing := False\<rparr>))
                    in if play_thread s' = Joinable
                       then (emit JoinPlayThread (interfered (play_exit env) s'))
                              \<lparr>play_thread := NotJoinable\<rparr>
                       else s'
                  else s2)
        in Returns (True, s3))"

text \<open>\<^verbatim>\<open>Download\<close> (lines 191-224).\<close>

definition Download :: "string \<Rightarrow> string \<Rightarrow> player \<Rightarrow> (bool \<times> player) outcome" where
  "Download song_name artist_name s =
     (if song_name = [] \<and> artist_name = [] then Returns (False, s)
      else
        let s1 = s\<lparr>current_song_name := song_name\<rparr>;
            path = ''/stream'';
            raw_query = (if artist_name \<noteq> [] \<and> song_name \<noteq> [] then artist_name @ ''+'' @ song_name
                         else if song_name \<noteq> [] then song_name
                         else artist_name);
            s2 = s1\<lparr>current_query_value := raw_query\<rparr>;
            full_url = base_host s2 @ path @ ''?raw_query='' @ url_encode_simple raw_query;
            s3 = s2\<lparr>current_stream_url := full_url, last_downloaded_data := full_url\<rparr>
        in
          and_then (StartStreaming full_url s3)
            (\<lambda>r. case r of (ok, s4) \<Rightarrow> if \<not> ok then Returns (False, s4) else Returns (True, s4)))"

section \<open>Auxiliary notions and sample sessions\<close>

text \<open>The wait predicates of the player read the queue and the flags, never the trace.\<close>

definition ignores_trace :: "(player \<Rightarrow> bool) \<Rightarrow> bool" where
  "ignores_trace pred \<longleftrightarrow> (\<forall>s tr. pred (s\<lparr>trace := tr\<rparr>) = pred s)"

text \<open>A running session with two chunks of 3 and 1 bytes in the queue.\<close>

definition two_chunks :: player where
  "two_chunks = Esp32Sing\<lparr>is_downloading := True, is_playing := True,
     audio_buffer := [\<lparr>data = Some [1, 2, 3], size_c = 3\<rparr>, \<lparr>data = Some [7], size_c = 1\<rparr>],
     buffer_size := 4\<rparr>"

text \<open>
  A session whose producer has ended without queueing anything (the transport could not
  be opened, line 451): \<^verbatim>\<open>is_downloading_\<close> is false, \<^verbatim>\<open>is_playing_\<close> still true.
\<close>

definition producer_gone :: player where
  "producer_gone = Esp32Sing\<lparr>is_playing := True, play_thread := Joinable,
     download_thread := Joinable\<rparr>"

text \<open>A codec with its output enabled, a board without display, an input block of zeros.\<close>

definition plain_setup :: "player list \<Rightarrow> play_setup" where
  "plain_setup later = \<lparr>codec_present = True, output_enabled = True, priming_later = later,
     input_alloc = Some (replicate 8192 0), display_at_exit = False\<rparr>"

text \<open>
  The two tasks as they end once the flags are down: the producer leaves its read loop and
  runs line 579, the consumer leaves \<^verbatim>\<open>while (is_playing_)\<close> and runs line 825.
\<close>

definition tasks_exit :: join_env where
  "tasks_exit = \<lparr>download_exit = (\<lambda>s. s\<lparr>is_downloading := False\<rparr>),
     play_exit = (\<lambda>s. s\<lparr>is_playing := False\<rparr>)\<rparr>"

definition streaming :: player where
  "streaming = two_chunks\<lparr>play_thread := Joinable, download_thread := Joinable\<rparr>"

text \<open>Counting the ID3 skips of a run, whatever its outcome.\<close>

fun is_id3_skip :: "event \<Rightarrow> bool" where
  "is_id3_skip (Id3Skip k) = True"
| "is_id3_skip _ = False"

definition id3_skips :: "player \<Rightarrow> nat" where
  "id3_skips s = length (filter is_id3_skip (trace s))"

fun last_state :: "player outcome \<Rightarrow> player" where
  "last_state (Returns s) = s"
| "last_state (Blocked b) = b"
| "last_state (Spins b) = b"
| "last_state (Fault b) = b"

text \<open>
  The skips so far plus the one the consumer may still apply: \<^verbatim>\<open>id3_processed\<close> guards
  lines 715-720.
\<close>

definition budget :: "play_locals \<Rightarrow> player \<Rightarrow> nat" where
  "budget c s = id3_skips s + (if id3_processed c then 0 else 1)"

fun bounded :: "('a \<Rightarrow> nat) \<Rightarrow> nat \<Rightarrow> 'a outcome \<Rightarrow> bool" where
  "bounded f k (Returns x) = (f x \<le> k)"
| "bounded f k (Blocked b) = (id3_skips b \<le> k)"
| "bounded f k (Spins b) = (id3_skips b \<le> k)"
| "bounded f k (Fault b) = (id3_skips b \<le> k)"

text \<open>The state a run ends in, and traces that grow without a further \<^verbatim>\<open>Open\<close>.\<close>

fun final :: "('a \<Rightarrow> player) \<Rightarrow> 'a outcome \<Rightarrow> player" where
  "final f (Returns x) = f x"
| "final f (Blocked b) = b"
| "final f (Spins b) = b"
| "final f (Fault b) = b"

fun is_open :: "event \<Rightarrow> bool" where
  "is_open (HttpOpen method url) = True"
| "is_open _ = False"

definition grows :: "player \<Rightarrow> player \<Rightarrow> bool" where
  "grows s s' \<longleftrightarrow> (\<exists>rest. trace s' = trace s @ rest \<and> filter is_open rest = [])"

text \<open>The result of the \<open>k\<close>-th call of \<^verbatim>\<open>Open\<close> in a session.\<close>

definition opened_at :: "bool list \<Rightarrow> nat \<Rightarrow> bool" where
  "opened_at results k = (case drop k results of [] \<Rightarrow> False | r # _ \<Rightarrow> r)"

text \<open>A transport that opens at the first call and answers with the given status.\<close>

definition answers :: "int \<Rightarrow> download_env" where
  "answers status = \<lparr>open_results = [True], status_code = status, start_ts_read = 0, reads = []\<rparr>"

definition requested :: player where
  "requested = streaming\<lparr>current_stream_url := ''http://8.134.249.85:18080/stream?raw_query=x''\<rparr>"















section \<open>Condition-variable waits\<close>

lemma cv_wait_now: "pred s \<Longrightarrow> cv_wait pred s later = Returns s"
  by (cases later) simp_all

lemma cv_wait_first:
  assumes "ignores_trace pred" and "\<not> pred s" and "\<forall>t \<in> set before. \<not> pred t" and "pred t"
  shows "cv_wait pred s (before @ t # after) = Returns (t\<lparr>trace := trace s\<rparr>)"
  using assms
proof (induction before arbitrary: s)
  case Nil
  then show ?case by (simp add: cv_wait_now ignores_trace_def)
next
  case (Cons a before)
  have "\<not> pred (a\<lparr>trace := trace s\<rparr>)"
    using Cons.prems by (simp add: ignores_trace_def)
  moreover have "trace (a\<lparr>trace := trace s\<rparr>) = trace s" by simp
  ultimately show ?case
    using Cons.IH [of "a\<lparr>trace := trace s\<rparr>"] Cons.prems by simp
qed

lemma cv_wait_never:
  assumes "ignores_trace pred" and "\<not> pred s" and "\<forall>t \<in> set later. \<not> pred t"
  shows "\<exists>b. cv_wait pred s later = Blocked b \<and> \<not> pred b \<and> trace b = trace s"
  using assms
proof (induction later arbitrary: s)
  case Nil
  then show ?case by simp
next
  case (Cons a later)
  have "\<not> pred (a\<lparr>trace := trace s\<rparr>)"
    using Cons.prems by (simp add: ignores_trace_def)
  then show ?case
    using Cons.IH [of "a\<lparr>trace := trace s\<rparr>"] Cons.prems by simp
qed

lemma pop_pred_ignores_trace:
  "ignores_trace (\<lambda>s. audio_buffer s \<noteq> [] \<or> \<not> is_downloading s)"
  by (simp add: ignores_trace_def)

lemma cv_wait_keeps_trace: "trace (last_state (cv_wait pred s later)) = trace s"
proof (induction later arbitrary: s)
  case Nil
  then show ?case by simp
next
  case (Cons a later)
  show ?case
    using Cons [of "a\<lparr>trace := trace s\<rparr>"] by simp
qed

section \<open>Traces of the producer\<close>

lemma grows_refl: "grows s s"
  by (simp add: grows_def)

lemma grows_trans: "grows s t \<Longrightarrow> grows t u \<Longrightarrow> grows s u"
  by (auto simp: grows_def)

lemma grows_same_trace: "trace t = trace s \<Longrightarrow> grows s t"
  by (simp add: grows_def)

lemma grows_emit: "\<not> is_open e \<Longrightarrow> grows s (emit e s)"
  by (simp add: grows_def emit_def)

lemma grows_and_then:
  assumes "grows s (final f m)" and "\<And>x. grows (f x) (final g (h x))"
  shows "grows s (final g (and_then m h))"
  using assms by (cases m) (auto intro: grows_trans)

lemma grows_cv_wait: "grows s (final (\<lambda>t. t) (cv_wait pred s later))"
  using cv_wait_keeps_trace [of pred s later]
  by (cases "cv_wait pred s later") (simp_all add: grows_same_trace)

lemma grows_push_chunk: "grows s (final snd (push_chunk mem n s later))"
  unfolding push_chunk_def
proof (rule grows_and_then [OF grows_cv_wait])
  fix x
  show "grows x (final snd
      (if is_downloading x then
         Returns (True, emit NotifyOne (x\<lparr>
           audio_buffer := audio_buffer x @ [\<lparr>data = Some mem, size_c = word_of_int n\<rparr>],
           buffer_size := buffer_size x + word_of_int n\<rparr>))
       else Returns (False, x)))"
    by (simp add: grows_def emit_def)
qed

lemma grows_read_loop: "grows s (final snd (read_loop start rs got s))"
proof (induction rs arbitrary: got s)
  case Nil
  then show ?case by (simp add: grows_emit grows_refl)
next
  case (Cons r rs)
  let ?s1 = "emit HttpRead s"
  have s1: "grows s ?s1" by (simp add: grows_emit)
  have again: "grows t (final snd (read_loop start rs g (interfered (meanwhile r) t)))" for t g
  proof -
    have "grows t (interfered (meanwhile r) t)"
      by (simp add: grows_same_trace interfered_def)
    then show ?thesis
      using Cons.IH [of "interfered (meanwhile r) t" g] by (rule grows_trans)
  qed
  have delay: "grows ?s1 (final snd (read_loop start rs got
      (interfered (meanwhile r) (emit (Delay 50) ?s1))))"
    by (rule grows_trans [OF grows_emit again]) simp
  have push: "grows ?s1 (final snd
      (and_then (push_chunk (take (nat (bytes_read r)) (buffer r)) (bytes_read r) ?s1 (push_later r))
        (\<lambda>p. case p of
                (True, s2) \<Rightarrow> read_loop start rs True (interfered (meanwhile r) s2)
              | (False, s2) \<Rightarrow> Returns (False, s2))))"
  proof (rule grows_and_then [OF grows_push_chunk])
    fix x :: "bool \<times> player"
    show "grows (snd x) (final snd
        (case x of
           (True, s2) \<Rightarrow> read_loop start rs True (interfered (meanwhile r) s2)
         | (False, s2) \<Rightarrow> Returns (False, s2)))"
      using again [of "snd x" True] by (cases x) (auto simp: grows_refl split: bool.splits)
  qed
  show ?case
    using s1 delay push
    by (auto simp: Let_def grows_refl intro: grows_trans)
qed

lemma grows_stop_lyric_thread: "grows s (stop_lyric_thread s)"
  by (simp add: stop_lyric_thread_def Let_def grows_def emit_def)

lemma grows_basic_cleanup: "grows s (final (\<lambda>t. t) (basic_cleanup s))"
  by (simp add: basic_cleanup_def Let_def ClearAudioBuffer_def grows_def emit_def)

lemma grows_write_form: "grows s (write_form s)"
  by (simp add: write_form_def grows_def emit_def)

text \<open>What follows a successful open: lines 430-581.\<close>

lemma grows_after_open:
  "grows s3
     (final (\<lambda>t. t)
       (let s4 = (if m = ''POST'' then write_form s3 else s3) in
        if status_code env = 404 then
          and_then (basic_cleanup (emit HttpClose s4))
            (\<lambda>s5. Returns (emit StartListening (emit PlaySound s5)))
        else if status_code env \<noteq> 200 \<and> status_code env \<noteq> 206 then
          basic_cleanup (emit HttpClose s4)
        else
          and_then (read_loop (start_ts_read env) (reads env) False s4)
            (\<lambda>r. case r of
                    (first_byte_timeout, s5) \<Rightarrow>
                      if first_byte_timeout then basic_cleanup (emit HttpClose s5)
                      else Returns (emit NotifyAll
                             ((emit HttpClose s5)\<lparr>is_downloading := False\<rparr>)))))"
proof -
  let ?s4 = "if m = ''POST'' then write_form s3 else s3"
  have s4: "grows s3 ?s4"
    by (simp add: grows_write_form grows_refl)
  have close: "grows t (final (\<lambda>t. t) (basic_cleanup (emit HttpClose t)))" for t
    using grows_basic_cleanup [of "emit HttpClose t"] grows_emit [of HttpClose t]
    by (auto intro: grows_trans)
  have nf: "grows ?s4 (final (\<lambda>t. t)
      (and_then (basic_cleanup (emit HttpClose ?s4))
         (\<lambda>s5. Returns (emit StartListening (emit PlaySound s5)))))"
    by (rule grows_and_then [OF close]) (simp add: grows_def emit_def)
  have ok: "grows ?s4 (final (\<lambda>t. t)
      (and_then (read_loop (start_ts_read env) (reads env) False ?s4)
         (\<lambda>r. case r of
                 (first_byte_timeout, s5) \<Rightarrow>
                   if first_byte_timeout then basic_cleanup (emit HttpClose s5)
                   else Returns (emit NotifyAll
                          ((emit HttpClose s5)\<lparr>is_downloading := False\<rparr>)))))"
  proof (rule grows_and_then [OF grows_read_loop])
    fix x :: "bool \<times> player"
    show "grows (snd x) (final (\<lambda>t. t)
        (case x of
           (first_byte_timeout, s5) \<Rightarrow>
             if first_byte_timeout then basic_cleanup (emit HttpClose s5)
             else Returns (emit NotifyAll ((emit HttpClose s5)\<lparr>is_downloading := False\<rparr>))))"
      using close [of "snd x"] by (cases x) (auto simp: grows_def emit_def)
  qed
  show ?thesis
    using s4 nf ok close [of ?s4]
    by (auto simp: Let_def intro: grows_trans)
qed

lemma open_with_retry_eq:
  "open_with_retry m rs s =
     (opened_at rs 0 \<or> opened_at rs 1,
      (if opened_at rs 0 then tl rs else drop 2 rs),
      (if opened_at rs 0 then emit (HttpOpen m (current_stream_url s)) s
       else emit (HttpOpen m (current_stream_url s))
              (emit (Delay 500) (emit (HttpOpen m (current_stream_url s)) s))))"
proof (cases rs)
  case Nil
  then show ?thesis
    by (simp add: open_with_retry_def http_open_def opened_at_def emit_def)
next
  case (Cons r rest)
  then show ?thesis
    by (cases rest) (simp_all add: open_with_retry_def http_open_def opened_at_def emit_def)
qed

lemma prepare_request_url: "current_stream_url (prepare_request s) = current_stream_url s"
  by (simp add: prepare_request_def set_request_headers_def Let_def emit_def)

section \<open>The canonical WAV header\<close>









section \<open>The WAV state at the start of a session\<close>

lemma drain_empty: "drain q = []"
  by (induction q) simp_all





section \<open>The queue invariant\<close>

lemma drain_Nil: "drain q = []"
  by (induction q) simp_all

lemma resident_bytes_simps:
  "resident_bytes (emit e s) = resident_bytes s"
  "resident_bytes (s\<lparr>buffer_size := b\<rparr>) = resident_bytes s"
  "resident_bytes (s\<lparr>audio_buffer := q\<rparr>) = sum_list (map (\<lambda>ch. unat (size_c ch)) q)"
  by (simp_all add: resident_bytes_def emit_def)

lemma unat_read_size:
  assumes "n \<le> 4096"
  shows "unat (word_of_int (int n) :: size_t) = n"
proof -
  have "n < 2 ^ 32" using assms by simp
  then show ?thesis
    by (simp add: unsigned_of_nat take_bit_nat_eq_self)
qed

lemma push_keeps_inv:
  assumes "queue_inv s" and "0 < length bs" and "length bs \<le> 4096"
  shows "queue_inv (apply_op (Push bs) s)"
proof (cases "buffer_size s < MAX_BUFFER_SIZE \<and> is_downloading s")
  case True
  then have lt: "unat (buffer_size s) < 128 * 1024"
    by (simp add: MAX_BUFFER_SIZE_def word_less_nat_alt)
  have len: "unat (word_of_int (int (length bs)) :: size_t) = length bs"
    using assms(3) by (rule unat_read_size)
  have sum: "unat (buffer_size s + word_of_int (int (length bs))) = unat (buffer_size s) + length bs"
    using lt len assms(3) by (simp add: unat_word_ariths)
  show ?thesis
    using True assms sum len lt
    by (simp add: push_chunk_def queue_inv_def resident_bytes_simps emit_def)
      (simp add: resident_bytes_def)
next
  case False
  then show ?thesis
    using assms(1) by (auto simp: push_chunk_def)
qed

lemma pop_keeps_inv:
  assumes "queue_inv s"
  shows "queue_inv (apply_op Pop s)"
proof (cases "audio_buffer s")
  case Nil
  then show ?thesis using assms by (simp add: pop_chunk_def take_front_def)
next
  case (Cons ch rest)
  have tot: "unat (buffer_size s) = unat (size_c ch) + sum_list (map (\<lambda>ch. unat (size_c ch)) rest)"
    using assms Cons by (simp add: queue_inv_def resident_bytes_def)
  then have le: "size_c ch \<le> buffer_size s"
    by (simp add: word_le_nat_alt)
  have "unat (buffer_size s - size_c ch) = unat (buffer_size s) - unat (size_c ch)"
    using le by (rule unat_sub)
  then show ?thesis
    using assms Cons tot
    by (simp add: pop_chunk_def take_front_def queue_inv_def resident_bytes_simps emit_def)
      (simp add: resident_bytes_def)
qed

lemma clear_keeps_inv: "queue_inv (apply_op Clear s)"
  by (simp add: ClearAudioBuffer_def queue_inv_def resident_bytes_simps drain_Nil)

lemma apply_op_keeps_inv:
  assumes "queue_inv s" and "read_sized a"
  shows "queue_inv (apply_op a s)"
  using assms by (cases a) (simp_all only: push_keeps_inv pop_keeps_inv clear_keeps_inv read_sized.simps)

lemma run_ops_keeps_inv:
  assumes "queue_inv s" and "\<forall>a \<in> set ops. read_sized a"
  shows "queue_inv (run_ops ops s)"
  using assms
proof (induction ops arbitrary: s)
  case Nil
  then show ?case by simp
next
  case (Cons a ops)
  then show ?case by (simp add: apply_op_keeps_inv)
qed


text \<open>
  Claim C1. After every sequence of pushes, pops and clears, \<^verbatim>\<open>buffer_size_\<close> is the sum of
  the sizes of the chunks in the queue, with no wrap-around below zero: a push that goes
  through appends the chunk and adds its length, a pop removes the front chunk and
  subtracts its length (which the counter covers), a clear empties the queue and sets
  the counter to zero.
\<close>

theorem queue_size_is_sum_of_resident_chunks:
  assumes "queue_inv s" and "\<forall>a \<in> set ops. read_sized a" and "t = run_ops ops s"
  shows "unat (buffer_size t) = resident_bytes t
    \<and> 0 \<le> uint (buffer_size t)
    \<and> (\<forall>bs. read_sized (Push bs) \<and> is_downloading t \<and> buffer_size t < MAX_BUFFER_SIZE \<longrightarrow>
          audio_buffer (apply_op (Push bs) t) =
            audio_buffer t @ [\<lparr>data = Some bs, size_c = word_of_int (int (length bs))\<rparr>]
          \<and> unat (buffer_size (apply_op (Push bs) t)) = unat (buffer_size t) + length bs)
    \<and> (\<forall>ch rest. audio_buffer t = ch # rest \<longrightarrow>
          audio_buffer (apply_op Pop t) = rest
          \<and> unat (size_c ch) \<le> unat (buffer_size t)
          \<and> unat (buffer_size (apply_op Pop t)) = unat (buffer_size t) - unat (size_c ch))
    \<and> audio_buffer (apply_op Clear t) = [] \<and> buffer_size (apply_op Clear t) = 0"
proof -
  have inv: "queue_inv t"
    using assms by (simp add: run_ops_keeps_inv)
  have sum: "unat (buffer_size t) = resident_bytes t"
    using inv by (simp add: queue_inv_def)
  have push: "audio_buffer (apply_op (Push bs) t) =
        audio_buffer t @ [\<lparr>data = Some bs, size_c = word_of_int (int (length bs))\<rparr>]
      \<and> unat (buffer_size (apply_op (Push bs) t)) = unat (buffer_size t) + length bs"
    if h: "read_sized (Push bs) \<and> is_downloading t \<and> buffer_size t < MAX_BUFFER_SIZE" for bs
  proof -
    have lt: "unat (buffer_size t) < 128 * 1024"
      using h by (simp add: MAX_BUFFER_SIZE_def word_less_nat_alt)
    have len: "unat (word_of_int (int (length bs)) :: size_t) = length bs"
      using h by (intro unat_read_size) simp
    have "unat (buffer_size t + word_of_int (int (length bs))) = unat (buffer_size t) + length bs"
      using lt len h by (simp add: unat_word_ariths)
    then show ?thesis
      using h by (simp add: push_chunk_def emit_def)
  qed
  have pop: "audio_buffer (apply_op Pop t) = rest
      \<and> unat (size_c ch) \<le> unat (buffer_size t)
      \<and> unat (buffer_size (apply_op Pop t)) = unat (buffer_size t) - unat (size_c ch)"
    if h: "audio_buffer t = ch # rest" for ch rest
  proof -
    have tot: "unat (buffer_size t) = unat (size_c ch) + sum_list (map (\<lambda>ch. unat (size_c ch)) rest)"
      using sum h by (simp add: resident_bytes_def)
    then have "size_c ch \<le> buffer_size t"
      by (simp add: word_le_nat_alt)
    then have "unat (buffer_size t - size_c ch) = unat (buffer_size t) - unat (size_c ch)"
      by (rule unat_sub)
    then show ?thesis
      using h tot by (simp add: pop_chunk_def take_front_def emit_def)
  qed
  have clear: "audio_buffer (apply_op Clear t) = [] \<and> buffer_size (apply_op Clear t) = 0"
    by (simp add: ClearAudioBuffer_def drain_Nil)
  show ?thesis
    using sum push pop clear by blast
qed

text \<open>The theorem at a queue that saw two reads of 3 and 1 bytes and one pop.\<close>

theorem queue_size_is_sum_of_resident_chunks_witness:
  "queue_inv (Esp32Sing\<lparr>is_downloading := True\<rparr>)
   \<and> list_all read_sized [Push [1, 2, 3], Push [7], Pop]
   \<and> unat (buffer_size (run_ops [Push [1, 2, 3], Push [7], Pop] (Esp32Sing\<lparr>is_downloading := True\<rparr>))) = 1
   \<and> resident_bytes (run_ops [Push [1, 2, 3], Push [7], Pop] (Esp32Sing\<lparr>is_downloading := True\<rparr>)) = 1"
proof -
  have h1: "queue_inv (Esp32Sing\<lparr>is_downloading := True\<rparr>)"
    by (simp add: queue_inv_def resident_bytes_def Esp32Sing_def)
  have h2: "\<forall>a \<in> set [Push [1, 2, 3], Push [7], Pop]. read_sized a"
    by simp
  have run: "resident_bytes (run_ops [Push [1, 2, 3], Push [7], Pop] (Esp32Sing\<lparr>is_downloading := True\<rparr>)) = 1"
    by (simp add: push_chunk_def pop_chunk_def take_front_def emit_def resident_bytes_def
        Esp32Sing_def MAX_BUFFER_SIZE_def)
  show ?thesis
    using queue_size_is_sum_of_resident_chunks [OF h1 h2 refl] h1 h2 run by simp
qed

section \<open>The priming wait\<close>

lemma priming_ready_ignores_trace: "ignores_trace priming_ready"
  by (simp add: ignores_trace_def priming_ready_def)

lemma priming_blocked:
  assumes "\<not> priming_ready s" and "\<forall>t \<in> set later. \<not> priming_ready t"
  shows "\<exists>b. priming_wait s later = Blocked b"
  using cv_wait_never [OF priming_ready_ignores_trace assms] by (auto simp: priming_wait_def)

lemma producer_gone_not_ready: "\<not> priming_ready producer_gone"
  by (simp add: priming_ready_def producer_gone_def Esp32Sing_def MIN_BUFFER_SIZE_def)

text \<open>
  Claim C2 says that the consumer gets past the priming wait once the producer has
  finished, also when the queue is still empty. The predicate of line 603 asks for a
  non-empty queue in that case. In a session whose producer ended without queueing
  anything the predicate is false and stays false at every wake-up, so the wait, and with
  it \<^verbatim>\<open>PlayAudioStream\<close>, never returns.
\<close>

theorem consumer_stuck_when_producer_ends_empty:
  "\<not> is_downloading producer_gone \<and> audio_buffer producer_gone = []
   \<and> \<not> priming_ready producer_gone
   \<and> (\<exists>b. priming_wait producer_gone (replicate n producer_gone) = Blocked b)
   \<and> (\<exists>b. PlayAudioStream (plain_setup (replicate n producer_gone)) envs producer_gone = Blocked b)"
proof -
  have flags: "\<not> is_downloading producer_gone \<and> audio_buffer producer_gone = []"
    by (simp add: producer_gone_def Esp32Sing_def)
  have same: "producer_gone\<lparr>current_play_time_ms := 0, last_frame_time_ms := 0,
      total_frames_decoded := 0\<rparr> = producer_gone"
    by (simp add: producer_gone_def Esp32Sing_def)
  have later: "\<forall>t \<in> set (replicate n producer_gone). \<not> priming_ready t"
    using producer_gone_not_ready by simp
  obtain b where b: "priming_wait producer_gone (replicate n producer_gone) = Blocked b"
    using priming_blocked [OF producer_gone_not_ready later] by blast
  then have "PlayAudioStream (plain_setup (replicate n producer_gone)) envs producer_gone = Blocked b"
    by (simp add: PlayAudioStream_def plain_setup_def same)
  then show ?thesis
    using flags producer_gone_not_ready b by blast
qed

section \<open>Waiting and the pop\<close>

text \<open>
  Claim C3. With the queue empty and \<^verbatim>\<open>is_downloading_\<close> false the pop reports the end of the
  stream at once, whatever wake-ups would follow. With the queue empty and the producer
  active it waits: it stays suspended as long as every wake-up finds the queue empty and
  the producer active, and at the first wake-up that finds otherwise it takes the front
  chunk, or goes round the loop when the producer stopped with the queue empty. With a
  chunk in the queue it removes the front one (pushes append at the back), subtracts its
  size from \<^verbatim>\<open>buffer_size_\<close> and notifies one waiter.
\<close>

theorem pop_ends_waits_or_takes_front:
  "(audio_buffer s = [] \<and> \<not> is_downloading s \<longrightarrow>
      (\<forall>later. pop_chunk s later = Returns (EndOfStream, s)))
   \<and> (audio_buffer s = [] \<and> is_downloading s \<and>
        (\<forall>t \<in> set later. audio_buffer t = [] \<and> is_downloading t) \<longrightarrow>
      (\<exists>b. pop_chunk s later = Blocked b))
   \<and> (audio_buffer s = [] \<and> is_downloading s \<and>
        (\<forall>t \<in> set before. audio_buffer t = [] \<and> is_downloading t) \<and>
        audio_buffer t = chunk # rest \<longrightarrow>
      pop_chunk s (before @ t # after) =
        Returns (Popped chunk,
          t\<lparr>audio_buffer := rest, buffer_size := buffer_size t - size_c chunk,
            trace := trace s @ [NotifyOne]\<rparr>))
   \<and> (audio_buffer s = [] \<and> is_downloading s \<and>
        (\<forall>t \<in> set before. audio_buffer t = [] \<and> is_downloading t) \<and>
        audio_buffer t = [] \<and> \<not> is_downloading t \<longrightarrow>
      pop_chunk s (before @ t # after) = Returns (Retry, t\<lparr>trace := trace s\<rparr>))
   \<and> (audio_buffer s = chunk # rest \<longrightarrow>
      (\<forall>later. pop_chunk s later =
        Returns (Popped chunk,
          s\<lparr>audio_buffer := rest, buffer_size := buffer_size s - size_c chunk,
            trace := trace s @ [NotifyOne]\<rparr>)))"
proof (intro conjI impI allI)
  fix later'
  assume "audio_buffer s = [] \<and> \<not> is_downloading s"
  then show "pop_chunk s later' = Returns (EndOfStream, s)"
    by (simp add: pop_chunk_def)
next
  assume h: "audio_buffer s = [] \<and> is_downloading s \<and>
    (\<forall>t \<in> set later. audio_buffer t = [] \<and> is_downloading t)"
  then obtain b where
    "cv_wait (\<lambda>s. audio_buffer s \<noteq> [] \<or> \<not> is_downloading s) s later = Blocked b"
    using cv_wait_never [OF pop_pred_ignores_trace, of s later] by auto
  then show "\<exists>b. pop_chunk s later = Blocked b"
    using h by (simp add: pop_chunk_def)
next
  assume h: "audio_buffer s = [] \<and> is_downloading s \<and>
    (\<forall>t \<in> set before. audio_buffer t = [] \<and> is_downloading t) \<and> audio_buffer t = chunk # rest"
  then have "cv_wait (\<lambda>s. audio_buffer s \<noteq> [] \<or> \<not> is_downloading s) s (before @ t # after)
      = Returns (t\<lparr>trace := trace s\<rparr>)"
    by (intro cv_wait_first [OF pop_pred_ignores_trace]) auto
  then show "pop_chunk s (before @ t # after) =
      Returns (Popped chunk,
        t\<lparr>audio_buffer := rest, buffer_size := buffer_size t - size_c chunk,
          trace := trace s @ [NotifyOne]\<rparr>)"
    using h by (simp add: pop_chunk_def take_front_def emit_def)
next
  assume h: "audio_buffer s = [] \<and> is_downloading s \<and>
    (\<forall>t \<in> set before. audio_buffer t = [] \<and> is_downloading t) \<and>
    audio_buffer t = [] \<and> \<not> is_downloading t"
  then have "cv_wait (\<lambda>s. audio_buffer s \<noteq> [] \<or> \<not> is_downloading s) s (before @ t # after)
      = Returns (t\<lparr>trace := trace s\<rparr>)"
    by (intro cv_wait_first [OF pop_pred_ignores_trace]) auto
  then show "pop_chunk s (before @ t # after) = Returns (Retry, t\<lparr>trace := trace s\<rparr>)"
    using h by (simp add: pop_chunk_def take_front_def)
next
  fix later'
  assume "audio_buffer s = chunk # rest"
  then show "pop_chunk s later' =
      Returns (Popped chunk,
        s\<lparr>audio_buffer := rest, buffer_size := buffer_size s - size_c chunk,
          trace := trace s @ [NotifyOne]\<rparr>)"
    by (simp add: pop_chunk_def take_front_def emit_def)
qed

text \<open>The five cases of the theorem at sample states.\<close>

theorem pop_ends_waits_or_takes_front_witness:
  "pop_chunk (Esp32Sing\<lparr>is_playing := True\<rparr>) [two_chunks] =
     Returns (EndOfStream, Esp32Sing\<lparr>is_playing := True\<rparr>)
   \<and> (\<exists>b. pop_chunk (Esp32Sing\<lparr>is_downloading := True\<rparr>) [Esp32Sing\<lparr>is_downloading := True\<rparr>]
          = Blocked b)
   \<and> pop_chunk (Esp32Sing\<lparr>is_downloading := True\<rparr>) ([Esp32Sing\<lparr>is_downloading := True\<rparr>] @ two_chunks # []) =
       Returns (Popped \<lparr>data = Some [1, 2, 3], size_c = 3\<rparr>,
         two_chunks\<lparr>audio_buffer := [\<lparr>data = Some [7], size_c = 1\<rparr>],
           buffer_size := buffer_size two_chunks - size_c \<lparr>data = Some [1, 2, 3], size_c = 3\<rparr>,
           trace := trace (Esp32Sing\<lparr>is_downloading := True\<rparr>) @ [NotifyOne]\<rparr>)
   \<and> pop_chunk (Esp32Sing\<lparr>is_downloading := True\<rparr>) ([] @ Esp32Sing # []) =
       Returns (Retry, Esp32Sing\<lparr>trace := trace (Esp32Sing\<lparr>is_downloading := True\<rparr>)\<rparr>)
   \<and> buffer_size two_chunks - size_c \<lparr>data = Some [1, 2, 3], size_c = 3\<rparr> = 1"
proof -
  have a: "audio_buffer (Esp32Sing\<lparr>is_playing := True\<rparr>) = []
      \<and> \<not> is_downloading (Esp32Sing\<lparr>is_playing := True\<rparr>)"
    by (simp add: Esp32Sing_def)
  have b: "audio_buffer (Esp32Sing\<lparr>is_downloading := True\<rparr>) = []
      \<and> is_downloading (Esp32Sing\<lparr>is_downloading := True\<rparr>)
      \<and> (\<forall>t \<in> set [Esp32Sing\<lparr>is_downloading := True\<rparr>]. audio_buffer t = [] \<and> is_downloading t)"
    by (simp add: Esp32Sing_def)
  have c: "audio_buffer (Esp32Sing\<lparr>is_downloading := True\<rparr>) = []
      \<and> is_downloading (Esp32Sing\<lparr>is_downloading := True\<rparr>)
      \<and> (\<forall>t \<in> set [Esp32Sing\<lparr>is_downloading := True\<rparr>]. audio_buffer t = [] \<and> is_downloading t)
      \<and> audio_buffer two_chunks = \<lparr>data = Some [1, 2, 3], size_c = 3\<rparr> # [\<lparr>data = Some [7], size_c = 1\<rparr>]"
    by (simp add: Esp32Sing_def two_chunks_def)
  have d: "audio_buffer (Esp32Sing\<lparr>is_downloading := True\<rparr>) = []
      \<and> is_downloading (Esp32Sing\<lparr>is_downloading := True\<rparr>)
      \<and> (\<forall>t \<in> set []. audio_buffer t = [] \<and> is_downloading t)
      \<and> audio_buffer Esp32Sing = [] \<and> \<not> is_downloading Esp32Sing"
    by (simp add: Esp32Sing_def)
  have e: "buffer_size two_chunks - size_c \<lparr>data = Some [1, 2, 3], size_c = 3\<rparr> = 1"
    by (simp add: two_chunks_def Esp32Sing_def)
  note t1 = pop_ends_waits_or_takes_front
    [of "Esp32Sing\<lparr>is_playing := True\<rparr>" "[]" "[]" "Esp32Sing" "undefined" "[]" "[]",
      THEN conjunct1, rule_format, OF a, of "[two_chunks]"]
  note t2 = pop_ends_waits_or_takes_front
    [of "Esp32Sing\<lparr>is_downloading := True\<rparr>" "[Esp32Sing\<lparr>is_downloading := True\<rparr>]",
      THEN conjunct2, THEN conjunct1, rule_format, OF b]
  note t3 = pop_ends_waits_or_takes_front
    [of "Esp32Sing\<lparr>is_downloading := True\<rparr>" _ "[Esp32Sing\<lparr>is_downloading := True\<rparr>]" two_chunks
      "\<lparr>data = Some [1, 2, 3], size_c = 3\<rparr>" "[\<lparr>data = Some [7], size_c = 1\<rparr>]" "[]",
      THEN conjunct2, THEN conjunct2, THEN conjunct1, rule_format, OF c]
  note t4 = pop_ends_waits_or_takes_front
    [of "Esp32Sing\<lparr>is_downloading := True\<rparr>" _ "[]" Esp32Sing _ _ "[]",
      THEN conjunct2, THEN conjunct2, THEN conjunct2, THEN conjunct1, rule_format, OF d]
  show ?thesis
    using t1 t2 t3 t4 e by blast
qed

section \<open>Stopping a session\<close>

lemma poll_joinable_fields:
  "audio_buffer (poll_joinable n h s) = audio_buffer s"
  "buffer_size (poll_joinable n h s) = buffer_size s"
  "is_playing (poll_joinable n h s) = is_playing s"
  "is_downloading (poll_joinable n h s) = is_downloading s"
  "play_thread (poll_joinable n h s) = play_thread s"
  "download_thread (poll_joinable n h s) = download_thread s"
  by (induction n h s rule: poll_joinable.induct) (simp_all add: emit_def Let_def)

text \<open>
  Claim C4 says that the queue is empty after \<^verbatim>\<open>StopStreaming\<close>. The function clears the
  flags and joins the tasks but never calls \<^verbatim>\<open>ClearAudioBuffer\<close>: stopping a session with two
  chunks in the queue returns true with both flags false, the two chunks still queued and
  \<^verbatim>\<open>buffer_size_\<close> at 4.
\<close>

theorem stop_leaves_chunks_in_queue:
  "(\<exists>s'. StopStreaming tasks_exit streaming = Returns (True, s')
      \<and> \<not> is_playing s' \<and> \<not> is_downloading s'
      \<and> audio_buffer s' = [\<lparr>data = Some [1, 2, 3], size_c = 3\<rparr>, \<lparr>data = Some [7], size_c = 1\<rparr>]
      \<and> buffer_size s' = 4)"
  by (simp add: StopStreaming_def join_download_def interfered_def tasks_exit_def emit_def
      poll_joinable_fields streaming_def two_chunks_def Esp32Sing_def Let_def)

section \<open>Stereo WAV playback\<close>






























section \<open>Detecting the WAV container\<close>

















section \<open>The ID3 tag\<close>

lemma low7: "b AND (0x7F :: byte) = take_bit 7 b"
  by (simp add: take_bit_eq_mask mask_eq_exp_minus_1)

lemma unat_low7: "unat (b AND (0x7F :: byte)) = unat b mod 128"
proof -
  have "unat (take_bit 7 b) = take_bit 7 (unat b)"
    by (rule unsigned_take_bit_eq)
  also have "\<dots> = unat b mod 2 ^ 7"
    by (rule take_bit_eq_mod)
  finally show ?thesis
    unfolding low7 by simp
qed

lemma field_value:
  fixes b :: byte
  assumes "k \<le> 21"
  shows "unat (push_bit k (ucast (b AND 0x7F)) :: size_t) = (unat b mod 128) * 2 ^ k"
proof -
  have small: "unat b mod 128 \<le> 127"
    using mod_less_divisor [of 128 "unat b"] by linarith
  have "(2::nat) ^ k \<le> 2 ^ 21"
    using assms by (intro power_increasing) simp_all
  then have "(unat b mod 128) * 2 ^ k \<le> 127 * 2 ^ 21"
    using small by (rule mult_le_mono [rotated])
  then have lt: "(unat b mod 128) * 2 ^ k < 2 ^ 32" by simp
  have "unat (ucast (b AND 0x7F) :: size_t) = unat b mod 128"
    by (simp add: unsigned_ucast_eq unat_low7 take_bit_nat_eq_self)
  moreover have "unat (push_bit k (ucast (b AND 0x7F)) :: size_t)
      = take_bit 32 (push_bit k (unat (ucast (b AND 0x7F) :: size_t)))"
    by (subst unsigned_push_bit_eq) simp
  ultimately have "unat (push_bit k (ucast (b AND 0x7F)) :: size_t)
      = take_bit 32 ((unat b mod 128) * 2 ^ k)"
    by (simp only: push_bit_eq_mult)
  then show ?thesis using lt by (simp add: take_bit_nat_eq_self)
qed

lemma field_bits:
  fixes b :: byte
  shows "bit (push_bit k (ucast (b AND 0x7F)) :: size_t) n \<Longrightarrow> k \<le> n \<and> n < k + 7"
  unfolding low7 by (auto simp: bit_simps)

lemma synchsafe_sum:
  fixes a b c d :: byte
  shows "push_bit 21 (ucast (a AND 0x7F)) OR push_bit 14 (ucast (b AND 0x7F))
           OR push_bit 7 (ucast (c AND 0x7F)) OR (ucast (d AND 0x7F) :: size_t)
    = push_bit 21 (ucast (a AND 0x7F)) + (push_bit 14 (ucast (b AND 0x7F))
           + (push_bit 7 (ucast (c AND 0x7F)) + push_bit 0 (ucast (d AND 0x7F))))"
proof -
  let ?A = "push_bit 21 (ucast (a AND 0x7F)) :: size_t"
  let ?B = "push_bit 14 (ucast (b AND 0x7F)) :: size_t"
  let ?C = "push_bit 7 (ucast (c AND 0x7F)) :: size_t"
  let ?D = "push_bit 0 (ucast (d AND 0x7F)) :: size_t"
  have cd: "?C + ?D = ?C OR ?D"
    by (rule disjunctive_add) (use field_bits [of 7 c] field_bits [of 0 d] in fastforce)
  have cd_bits: "bit (?C OR ?D) n \<Longrightarrow> n < 14" for n
    using field_bits [of 7 c n] field_bits [of 0 d n] by (auto simp: bit_or_iff)
  have bcd: "?B + (?C OR ?D) = ?B OR (?C OR ?D)"
    by (rule disjunctive_add) (use field_bits [of 14 b] cd_bits in fastforce)
  have bcd_bits: "bit (?B OR (?C OR ?D)) n \<Longrightarrow> n < 21" for n
    using field_bits [of 14 b n] cd_bits [of n] by (auto simp: bit_or_iff)
  have abcd: "?A + (?B OR (?C OR ?D)) = ?A OR (?B OR (?C OR ?D))"
    by (rule disjunctive_add) (use field_bits [of 21 a] bcd_bits in fastforce)
  show ?thesis
    using cd bcd abcd by (simp add: or.assoc)
qed

lemma synchsafe_value:
  fixes a b c d :: byte
  shows "unat (push_bit 21 (ucast (a AND 0x7F)) OR push_bit 14 (ucast (b AND 0x7F))
           OR push_bit 7 (ucast (c AND 0x7F)) OR (ucast (d AND 0x7F) :: size_t))
    = (unat a mod 128) * 2 ^ 21 + (unat b mod 128) * 2 ^ 14 + (unat c mod 128) * 2 ^ 7 + unat d mod 128"
proof -
  have A: "unat (push_bit 21 (ucast (a AND 0x7F)) :: size_t) = (unat a mod 128) * 2 ^ 21"
    by (rule field_value) simp
  have B: "unat (push_bit 14 (ucast (b AND 0x7F)) :: size_t) = (unat b mod 128) * 2 ^ 14"
    by (rule field_value) simp
  have C: "unat (push_bit 7 (ucast (c AND 0x7F)) :: size_t) = (unat c mod 128) * 2 ^ 7"
    by (rule field_value) simp
  have D: "unat (push_bit 0 (ucast (d AND 0x7F)) :: size_t) = (unat d mod 128) * 2 ^ 0"
    by (rule field_value) simp
  have bounds: "unat a mod 128 < 128" "unat b mod 128 < 128" "unat c mod 128 < 128" "unat d mod 128 < 128"
    by simp_all
  have "unat (push_bit 21 (ucast (a AND 0x7F)) + (push_bit 14 (ucast (b AND 0x7F))
           + (push_bit 7 (ucast (c AND 0x7F)) + push_bit 0 (ucast (d AND 0x7F)))) :: size_t)
     = ((unat a mod 128) * 2 ^ 21 + ((unat b mod 128) * 2 ^ 14 + ((unat c mod 128) * 2 ^ 7 + (unat d mod 128) * 2 ^ 0))) mod 2 ^ 32"
    unfolding unat_word_ariths A B C D by (simp add: mod_simps)
  also have "\<dots> = (unat a mod 128) * 2 ^ 21 + ((unat b mod 128) * 2 ^ 14 + ((unat c mod 128) * 2 ^ 7 + (unat d mod 128) * 2 ^ 0))"
    using bounds by (intro mod_less) simp
  finally show ?thesis
    unfolding synchsafe_sum by simp
qed

lemma id3_skips_simps:
  "id3_skips (emit e s) = id3_skips s + (if is_id3_skip e then 1 else 0)"
  "id3_skips (interfered f s) = id3_skips s"
  by (simp_all add: id3_skips_def emit_def interfered_def)

lemma bounded_and_then:
  assumes "bounded f k m" and "\<And>x. f x \<le> k \<Longrightarrow> bounded g k (h x)"
  shows "bounded g k (and_then m h)"
  using assms by (cases m) simp_all

lemma bounded_then_more:
  assumes "bounded f k m" and "k \<le> k'" and "\<And>x. f x \<le> k \<Longrightarrow> bounded g k' (h x)"
  shows "bounded g k' (and_then m h)"
  using assms by (cases m) simp_all

lemma bounded_mono: "bounded f k m \<Longrightarrow> k \<le> k' \<Longrightarrow> bounded f k' m"
  by (cases m) simp_all

lemma cv_wait_bounded: "bounded id3_skips (id3_skips s) (cv_wait pred s later)"
  using cv_wait_keeps_trace [of pred s later]
  by (cases "cv_wait pred s later") (simp_all add: id3_skips_def)

lemma take_front_bounded: "bounded (\<lambda>r. id3_skips (snd r)) (id3_skips s) (take_front s)"
  by (simp add: take_front_def id3_skips_def emit_def split: list.splits)

lemma pop_chunk_bounded: "bounded (\<lambda>r. id3_skips (snd r)) (id3_skips s) (pop_chunk s later)"
proof -
  have "bounded (\<lambda>r. id3_skips (snd r)) (id3_skips s)
      (and_then (cv_wait (\<lambda>s. audio_buffer s \<noteq> [] \<or> \<not> is_downloading s) s later) take_front)"
  proof (rule bounded_and_then [OF cv_wait_bounded])
    fix x
    assume "id3_skips x \<le> id3_skips s"
    then show "bounded (\<lambda>r. id3_skips (snd r)) (id3_skips s) (take_front x)"
      using take_front_bounded [of x] by (rule bounded_mono [rotated])
  qed
  then show ?thesis
    using take_front_bounded [of s] by (simp add: pop_chunk_def)
qed

lemma id3_step_budget: "budget (fst (id3_step c s)) (snd (id3_step c s)) \<le> budget c s"
  by (simp add: id3_step_def budget_def id3_skips_simps Let_def split: option.splits)

lemma fill_input_bounded:
  "bounded (\<lambda>r. budget (fst r) (snd r)) (budget c s) (fill_input chunk c s)"
proof -
  have step: "budget (fst (id3_step c' s)) (snd (id3_step c' s)) \<le> budget c s"
    if "id3_processed c' = id3_processed c" for c'
    using id3_step_budget [of c' s] that by (simp add: budget_def)
  have fault: "id3_skips s \<le> budget c s"
    by (simp add: budget_def)
  show ?thesis
    using fault by (auto simp: fill_input_def Let_def step split: option.splits)
qed

lemma wav_scan_step_bounded:
  "bounded (\<lambda>r. budget (fst (snd r)) (fst (snd (snd r)))) (budget c s) (wav_scan_step pos (c, s, chunk))"
proof (cases "data chunk")
  case None
  then show ?thesis by (simp add: wav_scan_step_def budget_def)
next
  case (Some mem)
  show ?thesis
    unfolding wav_scan_step_def Let_def
    by (simp add: Some budget_def id3_skips_def)
qed

lemma wav_scan_bounded:
  assumes "wav_scan pos0 st0 = Some r0"
  shows "bounded (\<lambda>st'. budget (fst st') (fst (snd st'))) (budget (fst st0) (fst (snd st0))) r0"
proof (rule wav_scan.raw_induct
    [where P = "\<lambda>pos st r. bounded (\<lambda>st'. budget (fst st') (fst (snd st')))
        (budget (fst st) (fst (snd st))) r", OF _ assms])
  fix scan pos st r
  assume IH: "\<And>pos st r. scan pos st = Some r \<Longrightarrow>
      bounded (\<lambda>st'. budget (fst st') (fst (snd st'))) (budget (fst st) (fst (snd st))) r"
    and body: "(if pos + 8 \<le> size_c (snd (snd st)) then
        (case wav_scan_step pos st of
           Returns (pos', st') \<Rightarrow> scan pos' st'
         | Blocked b \<Rightarrow> Some (Blocked b)
         | Spins b \<Rightarrow> Some (Spins b)
         | Fault b \<Rightarrow> Some (Fault b))
      else Some (Returns st)) = Some r"
  show "bounded (\<lambda>st'. budget (fst st') (fst (snd st'))) (budget (fst st) (fst (snd st))) r"
  proof (cases "pos + 8 \<le> size_c (snd (snd st))")
    case False
    then show ?thesis using body by auto
  next
    case True
    obtain c s chunk where st: "st = (c, s, chunk)" by (cases st) auto
    have stepb: "bounded (\<lambda>r. budget (fst (snd r)) (fst (snd (snd r)))) (budget c s) (wav_scan_step pos st)"
      unfolding st by (rule wav_scan_step_bounded)
    show ?thesis
    proof (cases "wav_scan_step pos st")
      case (Returns x)
      obtain pos' st' where x: "x = (pos', st')" by (cases x) auto
      have rec: "scan pos' st' = Some r"
        using body True Returns x by simp
      have le: "budget (fst st') (fst (snd st')) \<le> budget c s"
        using stepb Returns x by simp
      have "bounded (\<lambda>st'. budget (fst st') (fst (snd st'))) (budget (fst st') (fst (snd st'))) r"
        by (rule IH [OF rec])
      then show ?thesis
        using le st by (auto intro: bounded_mono)
    next
      case (Blocked b)
      then show ?thesis using body True stepb st by auto
    next
      case (Spins b)
      then show ?thesis using body True stepb st by auto
    next
      case (Fault b)
      then show ?thesis using body True stepb st by auto
    qed
  qed
qed

lemma detect_format_bounded:
  "bounded (\<lambda>st'. budget (fst st') (fst (snd st'))) (budget c s) (detect_format c s chunk)"
proof -
  have base: "id3_skips s \<le> budget c s" by (simp add: budget_def)
  have same: "budget c (s\<lparr>wav_mode := True\<rparr>) = budget c s"
    by (simp add: budget_def id3_skips_def)
  have scan: "bounded (\<lambda>st'. budget (fst st') (fst (snd st'))) (budget c s)
      (case wav_scan 12 (c, s\<lparr>wav_mode := True\<rparr>, chunk) of
         None \<Rightarrow> Spins (s\<lparr>wav_mode := True\<rparr>) | Some r \<Rightarrow> r)"
  proof (cases "wav_scan 12 (c, s\<lparr>wav_mode := True\<rparr>, chunk)")
    case None
    then show ?thesis using base by (simp add: id3_skips_def)
  next
    case (Some r)
    then show ?thesis using wav_scan_bounded [OF Some] same by simp
  qed
  show ?thesis
    using base scan by (auto simp: detect_format_def split: option.splits)
qed

lemma ingest_bounded:
  "bounded (\<lambda>r. budget (fst r) (snd r)) (budget c s) (ingest chunk c s)"
proof (cases "data chunk \<noteq> None \<and> 0 < size_c chunk")
  case False
  then show ?thesis by (auto simp: ingest_def)
next
  case True
  have "bounded (\<lambda>r. budget (fst r) (snd r)) (budget c s)
      (and_then (detect_format c s chunk)
         (\<lambda>st. case st of (c1, s1, chunk1) \<Rightarrow> fill_input chunk1 c1 s1))"
  proof (rule bounded_and_then [OF detect_format_bounded])
    fix x :: scan_state
    assume le: "budget (fst x) (fst (snd x)) \<le> budget c s"
    obtain c1 s1 chunk1 where x: "x = (c1, s1, chunk1)" by (cases x) auto
    show "bounded (\<lambda>r. budget (fst r) (snd r)) (budget c s)
        (case x of (c1, s1, chunk1) \<Rightarrow> fill_input chunk1 c1 s1)"
      using fill_input_bounded [of c1 s1 chunk1] le x by (auto intro: bounded_mono)
  qed
  then show ?thesis using True by (simp add: ingest_def)
qed


lemma wav_play_bounded:
  "bounded (\<lambda>r. budget (fst r) (snd r)) (budget c s) (wav_play c s)"
  by (auto simp: wav_play_def Let_def budget_def id3_skips_simps split: option.splits)

lemma mp3_step_bounded:
  "bounded (\<lambda>r. budget (fst (snd r)) (snd (snd r))) (budget c s) (mp3_step m c s)"
  by (simp add: mp3_step_def Let_def budget_def id3_skips_def emit_def)

lemma show_song_name_skips: "id3_skips (show_song_name d s) = id3_skips s"
  by (simp add: show_song_name_def Let_def id3_skips_def emit_def)

lemma fetch_bounded:
  "bounded (\<lambda>r. budget (fst (snd r)) (snd (snd r))) (budget c s) (fetch env c s)"
proof (cases "bytes_left c < 4096")
  case False
  then show ?thesis by (simp add: fetch_def)
next
  case True
  have pop: "bounded (\<lambda>r. budget c (snd r)) (budget c s) (pop_chunk s (pop_later env))"
    using pop_chunk_bounded [of s "pop_later env"]
    by (cases "pop_chunk s (pop_later env)") (simp_all add: budget_def)
  have "bounded (\<lambda>r. budget (fst (snd r)) (snd (snd r))) (budget c s)
      (and_then (pop_chunk s (pop_later env))
        (\<lambda>r. case r of
                (EndOfStream, s1) \<Rightarrow> Returns (Break, c, s1)
              | (Retry, s1) \<Rightarrow> Returns (Continue, c, s1)
              | (Popped chunk, s1) \<Rightarrow>
                  and_then (ingest chunk c s1) (\<lambda>r. Returns (Proceed, fst r, snd r))))"
  proof (rule bounded_and_then [OF pop])
    fix x :: "pop_result \<times> player"
    assume le: "budget c (snd x) \<le> budget c s"
    obtain res s1 where x: "x = (res, s1)" by (cases x) auto
    show "bounded (\<lambda>r. budget (fst (snd r)) (snd (snd r))) (budget c s)
        (case x of
           (EndOfStream, s1) \<Rightarrow> Returns (Break, c, s1)
         | (Retry, s1) \<Rightarrow> Returns (Continue, c, s1)
         | (Popped chunk, s1) \<Rightarrow>
             and_then (ingest chunk c s1) (\<lambda>r. Returns (Proceed, fst r, snd r)))"
    proof (cases res)
      case EndOfStream
      then show ?thesis using le x by simp
    next
      case Retry
      then show ?thesis using le x by simp
    next
      case (Popped chunk)
      have "bounded (\<lambda>r. budget (fst (snd r)) (snd (snd r))) (budget c s1)
          (and_then (ingest chunk c s1) (\<lambda>r. Returns (Proceed, fst r, snd r)))"
        by (rule bounded_and_then [OF ingest_bounded]) simp
      then show ?thesis
        using le x Popped by (auto intro: bounded_mono)
    qed
  qed
  then show ?thesis using True by (simp add: fetch_def)
qed

lemma play_iteration_bounded:
  "bounded (\<lambda>r. budget (fst (snd r)) (snd (snd r))) (budget c s) (play_iteration env c s)"
proof (cases "device_state env = kDeviceStateIdle")
  case False
  then show ?thesis
    by (auto simp: play_iteration_def budget_def id3_skips_simps)
next
  case True
  have same: "budget c (show_song_name (display_present env) s) = budget c s"
    by (simp add: budget_def show_song_name_skips)
  have "bounded (\<lambda>r. budget (fst (snd r)) (snd (snd r))) (budget c s)
      (and_then (fetch env c (show_song_name (display_present env) s))
        (\<lambda>r. case r of
                (Proceed, c1, s1) \<Rightarrow>
                  if wav_mode s1 then
                    and_then (wav_play c1 s1) (\<lambda>r. Returns (Continue, fst r, snd r))
                  else mp3_step (mp3 env) c1 s1
              | (ctl, c1, s1) \<Rightarrow> Returns (ctl, c1, s1)))"
  proof (rule bounded_and_then [OF fetch_bounded [of c "show_song_name (display_present env) s" env,
          unfolded same]])
    fix x :: "step \<times> play_locals \<times> player"
    assume le: "budget (fst (snd x)) (snd (snd x)) \<le> budget c s"
    obtain ctl c1 s1 where x: "x = (ctl, c1, s1)" by (cases x) auto
    have wav: "bounded (\<lambda>r. budget (fst (snd r)) (snd (snd r))) (budget c1 s1)
        (and_then (wav_play c1 s1) (\<lambda>r. Returns (Continue, fst r, snd r)))"
      by (rule bounded_and_then [OF wav_play_bounded]) simp
    show "bounded (\<lambda>r. budget (fst (snd r)) (snd (snd r))) (budget c s)
        (case x of
           (Proceed, c1, s1) \<Rightarrow>
             if wav_mode s1 then
               and_then (wav_play c1 s1) (\<lambda>r. Returns (Continue, fst r, snd r))
             else mp3_step (mp3 env) c1 s1
         | (ctl, c1, s1) \<Rightarrow> Returns (ctl, c1, s1))"
      using le x wav mp3_step_bounded [of c1 s1 "mp3 env"]
      by (cases ctl) (auto intro: bounded_mono)
  qed
  then show ?thesis using True by (simp add: play_iteration_def)
qed

lemma play_loop_bounded:
  "bounded (\<lambda>r. id3_skips (snd r)) (budget c s) (play_loop envs c s)"
proof (induction envs arbitrary: c s)
  case Nil
  then show ?case by (simp add: budget_def)
next
  case (Cons env envs)
  let ?s0 = "interfered (others env) s"
  have same: "budget c ?s0 = budget c s"
    by (simp add: budget_def id3_skips_simps)
  show ?case
  proof (cases "is_playing ?s0")
    case False
    then show ?thesis using same by (simp add: Let_def budget_def id3_skips_simps)
  next
    case True
    have "bounded (\<lambda>r. id3_skips (snd r)) (budget c s)
        (and_then (play_iteration env c ?s0)
          (\<lambda>r. case r of
                  (Break, c1, s1) \<Rightarrow> Returns (c1, s1)
                | (_, c1, s1) \<Rightarrow> play_loop envs c1 s1))"
    proof (rule bounded_and_then [OF play_iteration_bounded [of c ?s0 env, unfolded same]])
      fix x :: "step \<times> play_locals \<times> player"
      assume le: "budget (fst (snd x)) (snd (snd x)) \<le> budget c s"
      obtain ctl c1 s1 where x: "x = (ctl, c1, s1)" by (cases x) auto
      have skips: "id3_skips s1 \<le> budget c s"
        using le x by (simp add: budget_def)
      show "bounded (\<lambda>r. id3_skips (snd r)) (budget c s)
          (case x of
             (Break, c1, s1) \<Rightarrow> Returns (c1, s1)
           | (_, c1, s1) \<Rightarrow> play_loop envs c1 s1)"
        using le x skips Cons.IH [of c1 s1]
        by (cases ctl) (auto intro: bounded_mono)
    qed
    then show ?thesis using True by (simp add: Let_def)
  qed
qed

lemma PlayAudioStream_bounded:
  "id3_skips (last_state (PlayAudioStream setup envs s)) \<le> id3_skips s + 1"
proof -
  let ?s0 = "s\<lparr>current_play_time_ms := 0, last_frame_time_ms := 0, total_frames_decoded := 0\<rparr>"
  let ?s1 = "if \<not> output_enabled setup then emit EnableOutput ?s0 else ?s0"
  let ?after = "\<lambda>r :: play_locals \<times> player.
      let s2 = emit ResetSampleRate ((snd r)\<lparr>is_playing := False\<rparr>)
      in Returns (if display_at_exit setup then emit (SetMusicInfo []) s2 else s2)"
  let ?body = "\<lambda>s1. case input_alloc setup of
       None \<Rightarrow> Returns (s1\<lparr>is_playing := False\<rparr>)
     | Some block \<Rightarrow>
         and_then
           (play_loop envs
              \<lparr>mp3_input_buffer = block, bytes_left = 0, read_ptr = None,
               id3_processed = False\<rparr> s1) ?after"
  have s1: "id3_skips ?s1 = id3_skips s"
    by (simp add: id3_skips_def emit_def)
  have wait: "bounded id3_skips (id3_skips s) (priming_wait ?s1 (priming_later setup))"
    unfolding priming_wait_def
    using cv_wait_bounded [of ?s1 priming_ready "priming_later setup"] s1 by simp
  have body: "bounded id3_skips (id3_skips s + 1) (?body x)" if le: "id3_skips x \<le> id3_skips s" for x
  proof (cases "input_alloc setup")
    case None
    then show ?thesis using le by (simp add: id3_skips_def)
  next
    case (Some block)
    let ?c0 = "\<lparr>mp3_input_buffer = block, bytes_left = 0, read_ptr = None, id3_processed = False\<rparr>"
    have loop: "bounded (\<lambda>r. id3_skips (snd r)) (budget ?c0 x) (play_loop envs ?c0 x)"
      by (rule play_loop_bounded)
    have k: "budget ?c0 x \<le> id3_skips s + 1"
      using le by (simp add: budget_def)
    have "bounded id3_skips (id3_skips s + 1) (and_then (play_loop envs ?c0 x) ?after)"
      by (rule bounded_then_more [OF loop k]) (use k in \<open>simp add: Let_def id3_skips_def emit_def\<close>)
    then show ?thesis
      using Some by simp
  qed
  have all: "bounded id3_skips (id3_skips s + 1)
      (and_then (priming_wait ?s1 (priming_later setup)) ?body)"
    by (rule bounded_then_more [OF wait _ body]) simp_all
  show ?thesis
  proof (cases "codec_present setup")
    case False
    then show ?thesis by (simp add: PlayAudioStream_def Let_def id3_skips_def)
  next
    case True
    have eq: "PlayAudioStream setup envs s = and_then (priming_wait ?s1 (priming_later setup)) ?body"
      using True by (simp add: PlayAudioStream_def Let_def)
    show ?thesis
      using all unfolding eq [symmetric]
      by (cases "PlayAudioStream setup envs s") simp_all
  qed
qed

lemma tag_ID3: "tag ''ID3'' = [0x49, 0x44, 0x33]"
  by (simp add: tag_def)

text \<open>
  Claim C7. For a buffer of at least 10 bytes that starts with \<^verbatim>\<open>ID3\<close>, \<^verbatim>\<open>SkipId3Tag\<close>
  returns 10 plus the synchsafe number made of the low 7 bits of bytes 6 to 9, most
  significant first; the size bytes 0, 0, 2, 1 give 267. Once \<^verbatim>\<open>id3_processed\<close> is set the
  consumer leaves its read pointer alone, and over a whole run of \<^verbatim>\<open>PlayAudioStream\<close>,
  however it ends, at most one skip is applied.
\<close>

theorem id3_skip_is_ten_plus_synchsafe_once:
  "(10 \<le> n \<and> 10 \<le> length mem \<and> take 3 mem = tag ''ID3'' \<longrightarrow>
      unat (SkipId3Tag mem n) =
        10 + ((unat (mem ! 6) mod 128) * 2 ^ 21 + (unat (mem ! 7) mod 128) * 2 ^ 14
              + (unat (mem ! 8) mod 128) * 2 ^ 7 + unat (mem ! 9) mod 128))
   \<and> (10 \<le> n \<longrightarrow>
      SkipId3Tag (tag ''ID3'' @ [major, minor, flags, 0x00, 0x00, 0x02, 0x01] @ rest) n = 267)
   \<and> (id3_processed c \<longrightarrow> id3_step c s = (c, s))
   \<and> id3_skips (last_state (PlayAudioStream setup envs s)) \<le> id3_skips s + 1"
proof (intro conjI impI)
  assume h: "10 \<le> n \<and> 10 \<le> length mem \<and> take 3 mem = tag ''ID3''"
  have len: "length (tag ''ID3'') = 3"
    by (simp add: tag_def)
  have sig: "memcmp_eq mem 0 (tag ''ID3'')"
    using h by (simp only: memcmp_eq_def len drop_0)
  have size: "\<not> n < 10"
    using h by (simp add: not_less)
  have "unat (SkipId3Tag mem n) =
      unat (10 + (push_bit 21 (ucast (mem ! 6 AND 0x7F)) OR push_bit 14 (ucast (mem ! 7 AND 0x7F))
                OR push_bit 7 (ucast (mem ! 8 AND 0x7F)) OR (ucast (mem ! 9 AND 0x7F) :: size_t)))"
    using sig size by (simp add: SkipId3Tag_def)
  also have "\<dots> = (10 + ((unat (mem ! 6) mod 128) * 2 ^ 21 + (unat (mem ! 7) mod 128) * 2 ^ 14
              + (unat (mem ! 8) mod 128) * 2 ^ 7 + unat (mem ! 9) mod 128)) mod 2 ^ 32"
    unfolding unat_word_ariths synchsafe_value by simp
  also have "\<dots> = 10 + ((unat (mem ! 6) mod 128) * 2 ^ 21 + (unat (mem ! 7) mod 128) * 2 ^ 14
              + (unat (mem ! 8) mod 128) * 2 ^ 7 + unat (mem ! 9) mod 128)"
  proof -
    have "unat (mem ! 6) mod 128 < 128" "unat (mem ! 7) mod 128 < 128"
      "unat (mem ! 8) mod 128 < 128" "unat (mem ! 9) mod 128 < 128"
      by simp_all
    then show ?thesis by (intro mod_less) simp
  qed
  finally show "unat (SkipId3Tag mem n) =
      10 + ((unat (mem ! 6) mod 128) * 2 ^ 21 + (unat (mem ! 7) mod 128) * 2 ^ 14
            + (unat (mem ! 8) mod 128) * 2 ^ 7 + unat (mem ! 9) mod 128)" .
next
  assume "10 \<le> n"
  then have "\<not> n < 10" by (simp add: not_less)
  then show "SkipId3Tag (tag ''ID3'' @ [major, minor, flags, 0x00, 0x00, 0x02, 0x01] @ rest) n = 267"
    by (simp add: SkipId3Tag_def memcmp_eq_def tag_ID3)
next
  assume "id3_processed c"
  then show "id3_step c s = (c, s)"
    by (simp add: id3_step_def)
next
  show "id3_skips (last_state (PlayAudioStream setup envs s)) \<le> id3_skips s + 1"
    by (rule PlayAudioStream_bounded)
qed

text \<open>The theorem at a 10-byte ID3v2.4 header with size bytes 0, 0, 2, 1.\<close>

theorem id3_skip_is_ten_plus_synchsafe_once_witness:
  "(10 :: size_t) \<le> 10
   \<and> take 3 [0x49, 0x44, 0x33, 4, 0, 0, 0, 0, 2, 1 :: byte] = tag ''ID3''
   \<and> unat (SkipId3Tag [0x49, 0x44, 0x33, 4, 0, 0, 0, 0, 2, 1] 10) = 267
   \<and> SkipId3Tag (tag ''ID3'' @ [4, 0, 0, 0x00, 0x00, 0x02, 0x01] @ []) 10 = 267"
proof -
  have h: "(10 :: size_t) \<le> 10 \<and> 10 \<le> length [0x49, 0x44, 0x33, 4, 0, 0, 0, 0, 2, 1 :: byte]
      \<and> take 3 [0x49, 0x44, 0x33, 4, 0, 0, 0, 0, 2, 1 :: byte] = tag ''ID3''"
    by (simp add: tag_ID3)
  have h2: "(10 :: size_t) \<le> 10" by simp
  note t = id3_skip_is_ten_plus_synchsafe_once
    [of 10 "[0x49, 0x44, 0x33, 4, 0, 0, 0, 0, 2, 1]" 4 0 0 "[]"]
  have a: "unat (SkipId3Tag [0x49, 0x44, 0x33, 4, 0, 0, 0, 0, 2, 1] 10) = 267"
    using t [THEN conjunct1, rule_format, OF h] by simp
  have b: "SkipId3Tag (tag ''ID3'' @ [4, 0, 0, 0x00, 0x00, 0x02, 0x01] @ []) 10 = 267"
    using t [THEN conjunct2, THEN conjunct1, rule_format, OF h2] .
  show ?thesis using h a b by simp
qed

section \<open>The response status\<close>

lemma basic_cleanup_blocks:
  "basic_cleanup s =
     Blocked (emit NotifyAll
       ((emit ResetSampleRate (emit (Delay 100) s))\<lparr>is_downloading := False, is_playing := False\<rparr>))"
  by (simp add: basic_cleanup_def ClearAudioBuffer_def Let_def)

text \<open>
  Claim C8 says that a 404 ends in the notify-and-resume cleanup (queue drained, one tone,
  listening requested) and any other failing status in the silent one (queue drained).
  Both cleanups call \<^verbatim>\<open>ClearAudioBuffer\<close> while holding the \<^verbatim>\<open>lock_guard\<close> of line 467 or
  494 on \<^verbatim>\<open>buffer_mutex_\<close>, which \<^verbatim>\<open>ClearAudioBuffer\<close> locks again. For a session with two
  chunks queued whose transport opens at once: with status 404 or 500 the producer clears
  both flags, notifies and then stays suspended on its own mutex, the queue undrained, no
  tone played and no listening requested; with status 200 or 206 it goes on to the first
  read with both flags still up.
\<close>

theorem error_status_cleanup_blocks_on_own_mutex:
  "(\<exists>b. DownloadAudioStreamFromUrl (answers 404) requested = Blocked b
        \<and> \<not> is_downloading b \<and> \<not> is_playing b
        \<and> audio_buffer b = audio_buffer requested \<and> audio_buffer b \<noteq> [] \<and> buffer_size b = 4
        \<and> PlaySound \<notin> set (trace b) \<and> StartListening \<notin> set (trace b)
        \<and> drop 6 (trace b) = [HttpClose, Delay 100, ResetSampleRate, NotifyAll])
   \<and> (\<exists>b. DownloadAudioStreamFromUrl (answers 500) requested = Blocked b
        \<and> \<not> is_downloading b \<and> \<not> is_playing b
        \<and> audio_buffer b = audio_buffer requested \<and> buffer_size b = 4
        \<and> drop 6 (trace b) = [HttpClose, Delay 100, ResetSampleRate, NotifyAll])
   \<and> (\<exists>b. DownloadAudioStreamFromUrl (answers 200) requested = Blocked b
        \<and> is_downloading b \<and> is_playing b \<and> drop 6 (trace b) = [HttpRead])
   \<and> (\<exists>b. DownloadAudioStreamFromUrl (answers 206) requested = Blocked b
        \<and> is_downloading b \<and> is_playing b \<and> drop 6 (trace b) = [HttpRead])"
proof -
  have m: "request_method requested = ''GET''"
    by (simp add: request_method_def requested_def)
  have u: "current_stream_url requested \<noteq> []"
    by (simp add: requested_def)
  have o: "opened_at (open_results (answers k)) 0" for k
    by (simp add: answers_def opened_at_def)
  have run: "DownloadAudioStreamFromUrl (answers k) requested =
      (let s4 = emit (HttpOpen ''GET'' (current_stream_url requested)) (prepare_request requested) in
       if k = 404 then
         and_then (basic_cleanup (emit HttpClose s4))
           (\<lambda>s5. Returns (emit StartListening (emit PlaySound s5)))
       else if k \<noteq> 200 \<and> k \<noteq> 206 then basic_cleanup (emit HttpClose s4)
       else
         and_then (read_loop 0 [] False s4)
           (\<lambda>r. case r of
                   (first_byte_timeout, s5) \<Rightarrow>
                     if first_byte_timeout then basic_cleanup (emit HttpClose s5)
                     else Returns (emit NotifyAll ((emit HttpClose s5)\<lparr>is_downloading := False\<rparr>))))" for k
    using u o [of k]
    by (simp add: DownloadAudioStreamFromUrl_def open_with_retry_eq m prepare_request_url Let_def)
      (simp add: answers_def)
  have pr: "prepare_request requested = set_request_headers requested"
    by (simp add: prepare_request_def m)
  have tr: "trace (prepare_request requested) =
      [SetHeader ''User-Agent'' ''ESP32-Sing-Player/1.0'', SetHeader ''Accept'' ''*/*'',
       SetHeader ''Range'' ''bytes=0-'', SetHeader ''Connection'' ''close'', AddAuthHeaders]"
    unfolding pr
    by (simp add: set_request_headers_def emit_def requested_def
        streaming_def two_chunks_def Esp32Sing_def)
  have q: "audio_buffer (prepare_request requested) = audio_buffer requested"
      "buffer_size (prepare_request requested) = 4"
      "is_downloading (prepare_request requested)" "is_playing (prepare_request requested)"
    unfolding pr
    by (simp_all add: set_request_headers_def emit_def requested_def
        streaming_def two_chunks_def Esp32Sing_def)
  have ne: "audio_buffer requested \<noteq> []"
    by (simp add: requested_def streaming_def two_chunks_def)
  show ?thesis
    unfolding run basic_cleanup_blocks
    using tr q ne by (simp add: Let_def emit_def)
qed

section \<open>Opening the transport\<close>

text \<open>
  Claim C9. In a session with a URL, when the first \<^verbatim>\<open>Open\<close> fails the producer waits 500 ms
  and calls \<^verbatim>\<open>Open\<close> once more. When that fails too it clears \<^verbatim>\<open>is_downloading_\<close> and
  returns, having done nothing else. Whatever the transport does afterwards, a session
  calls \<^verbatim>\<open>Open\<close> once when the first call succeeds and twice, 500 ms apart, when it does
  not: nothing in the rest of the run opens the transport again.
\<close>

theorem open_failure_retried_exactly_once:
  "current_stream_url s \<noteq> [] \<longrightarrow>
     (\<not> opened_at (open_results env) 0 \<and> \<not> opened_at (open_results env) 1 \<longrightarrow>
        DownloadAudioStreamFromUrl env s =
          Returns ((emit (HttpOpen (request_method s) (current_stream_url s))
                     (emit (Delay 500)
                       (emit (HttpOpen (request_method s) (current_stream_url s))
                         (prepare_request s))))\<lparr>is_downloading := False\<rparr>))
     \<and> (\<not> opened_at (open_results env) 0 \<and> opened_at (open_results env) 1 \<longrightarrow>
        (\<exists>rest. trace (last_state (DownloadAudioStreamFromUrl env s)) =
            trace (prepare_request s)
              @ [HttpOpen (request_method s) (current_stream_url s), Delay 500,
                 HttpOpen (request_method s) (current_stream_url s)] @ rest
          \<and> filter is_open rest = []))
     \<and> (opened_at (open_results env) 0 \<longrightarrow>
        (\<exists>rest. trace (last_state (DownloadAudioStreamFromUrl env s)) =
            trace (prepare_request s)
              @ [HttpOpen (request_method s) (current_stream_url s)] @ rest
          \<and> filter is_open rest = []))"
proof (intro impI conjI)
  assume url: "current_stream_url s \<noteq> []"
  assume "\<not> opened_at (open_results env) 0 \<and> \<not> opened_at (open_results env) 1"
  then show "DownloadAudioStreamFromUrl env s =
      Returns ((emit (HttpOpen (request_method s) (current_stream_url s))
                 (emit (Delay 500)
                   (emit (HttpOpen (request_method s) (current_stream_url s))
                     (prepare_request s))))\<lparr>is_downloading := False\<rparr>)"
    using url by (simp add: DownloadAudioStreamFromUrl_def open_with_retry_eq prepare_request_url)
next
  let ?m = "request_method s" and ?u = "current_stream_url s"
  let ?after = "\<lambda>s3.
       let s4 = (if ?m = ''POST'' then write_form s3 else s3) in
        if status_code env = 404 then
          and_then (basic_cleanup (emit HttpClose s4))
            (\<lambda>s5. Returns (emit StartListening (emit PlaySound s5)))
        else if status_code env \<noteq> 200 \<and> status_code env \<noteq> 206 then
          basic_cleanup (emit HttpClose s4)
        else
          and_then (read_loop (start_ts_read env) (reads env) False s4)
            (\<lambda>r. case r of
                    (first_byte_timeout, s5) \<Rightarrow>
                      if first_byte_timeout then basic_cleanup (emit HttpClose s5)
                      else Returns (emit NotifyAll
                             ((emit HttpClose s5)\<lparr>is_downloading := False\<rparr>)))"
  have final_id: "last_state out = final (\<lambda>t. t) out" for out
    by (cases out) simp_all
  {
    assume url: "current_stream_url s \<noteq> []"
    assume h: "\<not> opened_at (open_results env) 0 \<and> opened_at (open_results env) 1"
    let ?s3 = "emit (HttpOpen ?m ?u) (emit (Delay 500) (emit (HttpOpen ?m ?u) (prepare_request s)))"
    have run: "DownloadAudioStreamFromUrl env s = ?after ?s3"
      using url h by (simp add: DownloadAudioStreamFromUrl_def open_with_retry_eq prepare_request_url)
    obtain rest where rest: "trace (last_state (?after ?s3)) = trace ?s3 @ rest"
        "filter is_open rest = []"
      using grows_after_open [of ?s3 ?m env] unfolding final_id grows_def by blast
    have "trace ?s3 = trace (prepare_request s) @ [HttpOpen ?m ?u, Delay 500, HttpOpen ?m ?u]"
      by (simp add: emit_def)
    then show "\<exists>rest. trace (last_state (DownloadAudioStreamFromUrl env s)) =
        trace (prepare_request s) @ [HttpOpen ?m ?u, Delay 500, HttpOpen ?m ?u] @ rest
        \<and> filter is_open rest = []"
      using rest run by simp
  }
  {
    assume url: "current_stream_url s \<noteq> []"
    assume h: "opened_at (open_results env) 0"
    let ?s3 = "emit (HttpOpen ?m ?u) (prepare_request s)"
    have run: "DownloadAudioStreamFromUrl env s = ?after ?s3"
      using url h by (simp add: DownloadAudioStreamFromUrl_def open_with_retry_eq prepare_request_url)
    obtain rest where rest: "trace (last_state (?after ?s3)) = trace ?s3 @ rest"
        "filter is_open rest = []"
      using grows_after_open [of ?s3 ?m env] unfolding final_id grows_def by blast
    have "trace ?s3 = trace (prepare_request s) @ [HttpOpen ?m ?u]"
      by (simp add: emit_def)
    then show "\<exists>rest. trace (last_state (DownloadAudioStreamFromUrl env s)) =
        trace (prepare_request s) @ [HttpOpen ?m ?u] @ rest
        \<and> filter is_open rest = []"
      using rest run by simp
  }
qed

text \<open>
  The theorem at a transport that never opens: two \<^verbatim>\<open>Open\<close> calls, then the producer is gone
  with \<^verbatim>\<open>is_downloading_\<close> false.
\<close>

theorem open_failure_retried_exactly_once_witness:
  "current_stream_url requested \<noteq> []
   \<and> \<not> opened_at (open_results (answers 200\<lparr>open_results := [False, False, True]\<rparr>)) 0
   \<and> \<not> opened_at (open_results (answers 200\<lparr>open_results := [False, False, True]\<rparr>)) 1
   \<and> DownloadAudioStreamFromUrl (answers 200\<lparr>open_results := [False, False, True]\<rparr>) requested =
       Returns ((emit (HttpOpen (request_method requested) (current_stream_url requested))
                  (emit (Delay 500)
                    (emit (HttpOpen (request_method requested) (current_stream_url requested))
                      (prepare_request requested))))\<lparr>is_downloading := False\<rparr>)
   \<and> request_method requested = ''GET''"
proof -
  have url: "current_stream_url requested \<noteq> []"
    by (simp add: requested_def)
  have fails: "\<not> opened_at (open_results (answers 200\<lparr>open_results := [False, False, True]\<rparr>)) 0
      \<and> \<not> opened_at (open_results (answers 200\<lparr>open_results := [False, False, True]\<rparr>)) 1"
    by (simp add: opened_at_def)
  have get: "request_method requested = ''GET''"
    by (simp add: request_method_def requested_def)
  show ?thesis
    using open_failure_retried_exactly_once
      [of requested "answers 200\<lparr>open_results := [False, False, True]\<rparr>",
        rule_format, THEN conjunct1, rule_format, OF url fails]
      url fails get by simp
qed

section \<open>Starting a session\<close>

lemma start_by_url:
  assumes "music_url \<noteq> []"
  shows "\<exists>s'. StartStreaming music_url s = Returns (True, s')
      \<and> is_downloading s' \<and> is_playing s' \<and> audio_buffer s' = [] \<and> buffer_size s' = 0
      \<and> current_stream_url s' = music_url
      \<and> (\<exists>pre. trace s' = pre @ [SpawnDownloadFromUrl, SpawnPlay])"
  using assms
  by (simp add: StartStreaming_def Let_def ClearAudioBuffer_def emit_def drain_empty)

lemma start_by_id:
  assumes "song_id \<noteq> []"
  shows "\<exists>s'. StartStreamingById song_id env s = Returns (True, s')
      \<and> is_downloading s' \<and> is_playing s' \<and> audio_buffer s' = [] \<and> buffer_size s' = 0
      \<and> current_song_id s' = song_id
      \<and> (\<exists>pre. trace s' = pre @ [SpawnDownloadById song_id, SpawnPlay])"
  using assms
  by (simp add: StartStreamingById_def Let_def ClearAudioBuffer_def emit_def drain_empty)

text \<open>
  Claim C10. \<^verbatim>\<open>StartStreaming\<close> with an empty URL and \<^verbatim>\<open>StartStreamingById\<close> with an empty id
  return false and leave the object exactly as it was: flags, queue, thread handles and
  trace (no notification, no join or detach, no task started). \<^verbatim>\<open>Download\<close> with both
  names empty does the same. With a non-empty argument, where \<^verbatim>\<open>buffer_mutex_\<close> is free at each
  lock and, for the start by id, the joined download task ends, each of them cancels the
  previous session, clears the queue, raises both flags and starts the two tasks.
\<close>

theorem empty_request_returns_false_untouched:
  "StartStreaming [] s = Returns (False, s)
   \<and> StartStreamingById [] env s = Returns (False, s)
   \<and> Download [] [] s = Returns (False, s)
   \<and> (music_url \<noteq> [] \<longrightarrow>
        (\<exists>s'. StartStreaming music_url s = Returns (True, s')
          \<and> is_downloading s' \<and> is_playing s' \<and> audio_buffer s' = [] \<and> buffer_size s' = 0
          \<and> (\<exists>pre. trace s' = pre @ [SpawnDownloadFromUrl, SpawnPlay])))
   \<and> (song_id \<noteq> [] \<longrightarrow>
        (\<exists>s'. StartStreamingById song_id env s = Returns (True, s')
          \<and> is_downloading s' \<and> is_playing s' \<and> audio_buffer s' = [] \<and> buffer_size s' = 0
          \<and> (\<exists>pre. trace s' = pre @ [SpawnDownloadById song_id, SpawnPlay])))
   \<and> (song_name \<noteq> [] \<or> artist_name \<noteq> [] \<longrightarrow>
        (\<exists>s'. Download song_name artist_name s = Returns (True, s')
          \<and> is_downloading s' \<and> is_playing s'
          \<and> current_stream_url s' =
                base_host s @ ''/stream?raw_query='' @ url_encode_simple
                  (if artist_name \<noteq> [] \<and> song_name \<noteq> [] then artist_name @ ''+'' @ song_name
                   else if song_name \<noteq> [] then song_name else artist_name)))"
proof (intro conjI impI)
  show "StartStreaming [] s = Returns (False, s)"
    by (simp add: StartStreaming_def)
  show "StartStreamingById [] env s = Returns (False, s)"
    by (simp add: StartStreamingById_def)
  show "Download [] [] s = Returns (False, s)"
    by (simp add: Download_def)
next
  assume "music_url \<noteq> []"
  then show "\<exists>s'. StartStreaming music_url s = Returns (True, s')
      \<and> is_downloading s' \<and> is_playing s' \<and> audio_buffer s' = [] \<and> buffer_size s' = 0
      \<and> (\<exists>pre. trace s' = pre @ [SpawnDownloadFromUrl, SpawnPlay])"
    using start_by_url [of music_url s] by blast
next
  assume "song_id \<noteq> []"
  then show "\<exists>s'. StartStreamingById song_id env s = Returns (True, s')
      \<and> is_downloading s' \<and> is_playing s' \<and> audio_buffer s' = [] \<and> buffer_size s' = 0
      \<and> (\<exists>pre. trace s' = pre @ [SpawnDownloadById song_id, SpawnPlay])"
    using start_by_id [of song_id env s] by blast
next
  assume names: "song_name \<noteq> [] \<or> artist_name \<noteq> []"
  define raw where "raw = (if artist_name \<noteq> [] \<and> song_name \<noteq> [] then artist_name @ ''+'' @ song_name
       else if song_name \<noteq> [] then song_name else artist_name)"
  define url where "url = base_host s @ ''/stream?raw_query='' @ url_encode_simple raw"
  define s3 where "s3 = s\<lparr>current_song_name := song_name, current_query_value := raw,
      current_stream_url := url, last_downloaded_data := url\<rparr>"
  have url: "url \<noteq> []" by (simp add: url_def)
  obtain s' where s': "StartStreaming url s3 = Returns (True, s')"
      "is_downloading s'" "is_playing s'" "current_stream_url s' = url"
    using start_by_url [OF url, of s3] by blast
  have "Download song_name artist_name s =
      and_then (StartStreaming url s3)
        (\<lambda>r. case r of (ok, s4) \<Rightarrow> if \<not> ok then Returns (False, s4) else Returns (True, s4))"
    using names
    by (cases "song_name = []"; cases "artist_name = []")
      (simp_all add: Download_def Let_def s3_def url_def raw_def)
  then have "Download song_name artist_name s = Returns (True, s')"
    using s'(1) by simp
  then show "\<exists>s'. Download song_name artist_name s = Returns (True, s')
      \<and> is_downloading s' \<and> is_playing s'
      \<and> current_stream_url s' =
            base_host s @ ''/stream?raw_query='' @ url_encode_simple
              (if artist_name \<noteq> [] \<and> song_name \<noteq> [] then artist_name @ ''+'' @ song_name
               else if song_name \<noteq> [] then song_name else artist_name)"
    using s' unfolding url_def raw_def by blast
qed

text \<open>The theorem at a running session, with empty and with non-empty arguments.\<close>

theorem empty_request_returns_false_untouched_witness:
  "StartStreaming [] streaming = Returns (False, streaming)
   \<and> StartStreamingById [] tasks_exit streaming = Returns (False, streaming)
   \<and> Download [] [] streaming = Returns (False, streaming)
   \<and> (\<exists>s'. StartStreaming ''http://h/a.mp3'' streaming = Returns (True, s')
          \<and> is_downloading s' \<and> is_playing s' \<and> audio_buffer s' = [] \<and> buffer_size s' = 0
          \<and> (\<exists>pre. trace s' = pre @ [SpawnDownloadFromUrl, SpawnPlay]))
   \<and> (\<exists>s'. StartStreamingById ''42'' tasks_exit streaming = Returns (True, s')
          \<and> is_downloading s' \<and> is_playing s' \<and> audio_buffer s' = [] \<and> buffer_size s' = 0
          \<and> (\<exists>pre. trace s' = pre @ [SpawnDownloadById ''42'', SpawnPlay]))
   \<and> (\<exists>s'. Download ''a b'' ''c+d'' streaming = Returns (True, s')
          \<and> is_downloading s' \<and> is_playing s'
          \<and> current_stream_url s' = ''http://8.134.249.85:18080/stream?raw_query=c%2Bd%2Ba%20b'')"
proof -
  note t = empty_request_returns_false_untouched
    [of streaming tasks_exit "''http://h/a.mp3''" "''42''" "''a b''" "''c+d''"]
  have enc: "base_host streaming @ ''/stream?raw_query='' @ url_encode_simple
      (if ''c+d'' \<noteq> [] \<and> ''a b'' \<noteq> [] then ''c+d'' @ ''+'' @ ''a b''
       else if ''a b'' \<noteq> [] then ''a b'' else ''c+d'')
      = ''http://8.134.249.85:18080/stream?raw_query=c%2Bd%2Ba%20b''"
    by (simp add: url_encode_simple_def encode_char_def streaming_def two_chunks_def Esp32Sing_def)
  have a: "''http://h/a.mp3'' \<noteq> []" and b: "''42'' \<noteq> []" and c: "''a b'' \<noteq> [] \<or> ''c+d'' \<noteq> []"
    by simp_all
  show ?thesis
    using t [THEN conjunct1] t [THEN conjunct2, THEN conjunct1]
      t [THEN conjunct2, THEN conjunct2, THEN conjunct1]
      t [THEN conjunct2, THEN conjunct2, THEN conjunct2, THEN conjunct1, rule_format, OF a]
      t [THEN conjunct2, THEN conjunct2, THEN conjunct2, THEN conjunct2, THEN conjunct1, rule_format, OF b]
      t [THEN conjunct2, THEN conjunct2, THEN conjunct2, THEN conjunct2, THEN conjunct2, rule_format, OF c]
    unfolding enc by blast
qed

end
